theory Spec2Isabelle
  imports Complex_Main "HOL-Library.Sublist"
begin

section \<open>Strings and paths\<close>

text \<open>
  JavaScript strings are modelled as \<open>string\<close>: a character stands for a code unit
  below 256 (the Latin-1 range). \<open>toLowerCase\<close> folds the letters A to Z and the
  capital letters of Latin-1 (U+00C0 to U+00DE without the multiplication sign) and
  leaves every other character alone.
\<close>

definition latin1_capitals :: string where
  "latin1_capitals =
     [CHR 0xC0, CHR 0xC1, CHR 0xC2, CHR 0xC3, CHR 0xC4, CHR 0xC5, CHR 0xC6, CHR 0xC7,
      CHR 0xC8, CHR 0xC9, CHR 0xCA, CHR 0xCB, CHR 0xCC, CHR 0xCD, CHR 0xCE, CHR 0xCF,
      CHR 0xD0, CHR 0xD1, CHR 0xD2, CHR 0xD3, CHR 0xD4, CHR 0xD5, CHR 0xD6, CHR 0xD8,
      CHR 0xD9, CHR 0xDA, CHR 0xDB, CHR 0xDC, CHR 0xDD, CHR 0xDE]"

definition latin1_smalls :: string where
  "latin1_smalls =
     [CHR 0xE0, CHR 0xE1, CHR 0xE2, CHR 0xE3, CHR 0xE4, CHR 0xE5, CHR 0xE6, CHR 0xE7,
      CHR 0xE8, CHR 0xE9, CHR 0xEA, CHR 0xEB, CHR 0xEC, CHR 0xED, CHR 0xEE, CHR 0xEF,
      CHR 0xF0, CHR 0xF1, CHR 0xF2, CHR 0xF3, CHR 0xF4, CHR 0xF5, CHR 0xF6, CHR 0xF8,
      CHR 0xF9, CHR 0xFA, CHR 0xFB, CHR 0xFC, CHR 0xFD, CHR 0xFE]"

definition lower_char :: "char \<Rightarrow> char" where
  "lower_char c =
     (case map_of (zip (''ABCDEFGHIJKLMNOPQRSTUVWXYZ'' @ latin1_capitals)
                       (''abcdefghijklmnopqrstuvwxyz'' @ latin1_smalls)) c of
        None \<Rightarrow> c
      | Some l \<Rightarrow> l)"

definition toLowerCase :: "string \<Rightarrow> string" where
  "toLowerCase s = map lower_char s"

text \<open>\<open>s.includes(t)\<close>: \<open>t\<close> occurs in \<open>s\<close> as a contiguous substring.\<close>

fun str_includes :: "string \<Rightarrow> string \<Rightarrow> bool" where
  "str_includes [] t = (t = [])"
| "str_includes (c # cs) t = (prefix t (c # cs) \<or> str_includes cs t)"

text \<open>
  \<open>path.extname\<close> of Node (POSIX flavour): trailing slashes are ignored, the last
  path component is taken, and the extension runs from its last dot to its end. The
  result is empty when the component has no dot, when its only candidate dot is its
  first character, and when the component is exactly \<open>..\<close>.
\<close>

definition last_component :: "string \<Rightarrow> string" where
  "last_component p =
     rev (takeWhile (\<lambda>c. c \<noteq> CHR ''/'') (dropWhile (\<lambda>c. c = CHR ''/'') (rev p)))"

definition extname :: "string \<Rightarrow> string" where
  "extname p =
     (let b = last_component p;
          e = rev (takeWhile (\<lambda>c. c \<noteq> CHR ''.'') (rev b))
      in if CHR ''.'' \<notin> set b then []
         else if length e + 1 = length b then []
         else if b = ''..'' then []
         else CHR ''.'' # e)"

section \<open>File kind classifier (audioUtils.js, isAudioFile)\<close>

definition audioOnlyExtensions :: "string list" where
  "audioOnlyExtensions = [''.mp3'', ''.mpga'', ''.m4a'', ''.wav'', ''.ogg'', ''.flac'', ''.aac'']"

definition ambiguousExtensions :: "string list" where
  "ambiguousExtensions = [''.mp4'', ''.mpeg'', ''.webm'']"

definition audioMimeTypes :: "string list" where
  "audioMimeTypes =
     [''audio/mpeg'', ''audio/mp3'', ''audio/mp4'', ''audio/m4a'', ''audio/wav'',
      ''audio/webm'', ''audio/ogg'', ''audio/flac'', ''audio/x-m4a'', ''audio/aac'']"

definition videoMimeTypes :: "string list" where
  "videoMimeTypes =
     [''video/mp4'', ''video/mpeg'', ''video/webm'', ''video/quicktime'',
      ''video/x-msvideo'', ''video/x-matroska'', ''video/3gpp'', ''video/x-flv'']"

text \<open>
  \<open>contentType ? contentType.toLowerCase() : null\<close>: the content type is \<open>None\<close>
  for \<open>null\<close>; the empty string is falsy and is normalised to \<open>null\<close> as well.
\<close>

definition normalizeContentType :: "string option \<Rightarrow> string option" where
  "normalizeContentType contentType =
     (case contentType of
        None \<Rightarrow> None
      | Some c \<Rightarrow> if c = [] then None else Some (toLowerCase c))"

text \<open>
  \<open>isAudioFile(filePath, contentType)\<close>, branch by branch as in the source (the log
  calls are omitted). The source's nested test inside the ambiguous-extension branch
  returns \<open>false\<close> on both sides and is kept.
\<close>

definition isAudioFile :: "string \<Rightarrow> string option \<Rightarrow> bool" where
  "isAudioFile filePath contentType =
     (let ext = toLowerCase (extname filePath);
          normalizedContentType = normalizeContentType contentType
      in if (case normalizedContentType of
               None \<Rightarrow> False
             | Some c \<Rightarrow> list_ex (\<lambda>ty. str_includes c ty) videoMimeTypes) then False
         else if (case normalizedContentType of
                    None \<Rightarrow> False
                  | Some c \<Rightarrow> list_ex (\<lambda>ty. str_includes c ty) audioMimeTypes) then True
         else if ext \<in> set audioOnlyExtensions then True
         else if ext \<in> set ambiguousExtensions then
           (if normalizedContentType \<noteq> None then False else False)
         else False)"

subsection \<open>The classifier as the specification words it\<close>

datatype FileKind = AudioOnly | NeedsExtraction

text \<open>
  A content type matches a MIME pattern when, compared without regard to letter case,
  it contains the pattern. An absent content type matches nothing.
\<close>

definition matches_mime :: "string list \<Rightarrow> string option \<Rightarrow> bool" where
  "matches_mime patterns contentType =
     (case contentType of
        None \<Rightarrow> False
      | Some c \<Rightarrow> list_ex (\<lambda>pat. str_includes (toLowerCase c) pat) patterns)"

text \<open>The extension of a path is in a set of extension names (written without dot).\<close>

definition extension_in :: "string list \<Rightarrow> string \<Rightarrow> bool" where
  "extension_in names p = list_ex (\<lambda>n. toLowerCase (extname p) = CHR ''.'' # n) names"

definition classify_spec :: "string \<Rightarrow> string option \<Rightarrow> FileKind" where
  "classify_spec p contentType =
     (if matches_mime videoMimeTypes contentType then NeedsExtraction
      else if matches_mime audioMimeTypes contentType then AudioOnly
      else if extension_in [''mp3'', ''wav'', ''m4a'', ''flac'', ''aac'', ''ogg'', ''mpga''] p
        then AudioOnly
      else if extension_in [''mp4'', ''mpeg'', ''webm''] p then NeedsExtraction
      else NeedsExtraction)"

section \<open>JavaScript numbers and their decimal strings\<close>

text \<open>
  A JavaScript number is an IEEE 754 double: a finite value, \<open>NaN\<close> or one of the two
  infinities. A finite double is kept as the rational it denotes, and every arithmetic
  operation rounds its exact result to the nearest double, ties to even (\<open>fl\<close>).
  Negative zero is not distinguished from zero.
\<close>

datatype jsnum = Fin rat | NaN | PosInf | NegInf

text \<open>\<open>log2_nat n\<close> is the position of the leading bit of \<open>n\<close>.\<close>

fun log2_nat :: "nat \<Rightarrow> nat" where
  "log2_nat n = (if n < 2 then 0 else Suc (log2_nat (n div 2)))"

declare log2_nat.simps [simp del]

text \<open>The binade of a positive rational \<open>x\<close>: the \<open>e\<close> with \<open>2^e \<le> x < 2^(e+1)\<close>.\<close>

definition binade :: "rat \<Rightarrow> int" where
  "binade x =
     (case quotient_of x of
        (p, q) \<Rightarrow>
          (let d = int (log2_nat (nat p)) - int (log2_nat (nat q))
           in if 2 powi d \<le> x then d else d - 1))"

text \<open>The nearest integer, the even one of the two on a tie.\<close>

definition round_even :: "rat \<Rightarrow> int" where
  "round_even y =
     (let f = \<lfloor>y\<rfloor>; r = y - of_int f
      in if r < 1 / 2 then f
         else if 1 / 2 < r then f + 1
         else if even f then f else f + 1)"

definition overflow_bound :: rat where
  "overflow_bound = 2 ^ 1024"

text \<open>
  \<open>fl x\<close>: the double nearest to \<open>x\<close>. Doubles have 53 significant bits, so in the
  binade \<open>e\<close> they are the multiples of \<open>2^(e - 52)\<close>; below \<open>2^(-1022)\<close> (subnormal
  range) they are the multiples of \<open>2^(-1074)\<close>; a magnitude that rounds to \<open>2^1024\<close>
  becomes an infinity.
\<close>

definition fl :: "rat \<Rightarrow> jsnum" where
  "fl x =
     (if x = 0 then Fin 0
      else
        (let a = \<bar>x\<bar>;
             e = max (binade a) (- 1022);
             q = 2 powi (e - 52);
             y = of_int (round_even (a / q)) * q
         in if overflow_bound \<le> y then (if 0 < x then PosInf else NegInf)
            else Fin (if 0 < x then y else - y)))"

fun js_isFinite :: "jsnum \<Rightarrow> bool" where
  "js_isFinite (Fin x) = True"
| "js_isFinite NaN = False"
| "js_isFinite PosInf = False"
| "js_isFinite NegInf = False"

text \<open>\<open>a > b\<close> on numbers: false as soon as one side is \<open>NaN\<close>.\<close>

fun js_gt :: "jsnum \<Rightarrow> jsnum \<Rightarrow> bool" where
  "js_gt (Fin a) (Fin b) = (b < a)"
| "js_gt (Fin a) NegInf = True"
| "js_gt (Fin a) PosInf = False"
| "js_gt PosInf (Fin b) = True"
| "js_gt PosInf NegInf = True"
| "js_gt PosInf PosInf = False"
| "js_gt NegInf b = False"
| "js_gt NaN b = False"
| "js_gt a NaN = False"

fun js_ge :: "jsnum \<Rightarrow> jsnum \<Rightarrow> bool" where
  "js_ge (Fin a) (Fin b) = (b \<le> a)"
| "js_ge (Fin a) NegInf = True"
| "js_ge (Fin a) PosInf = False"
| "js_ge PosInf (Fin b) = True"
| "js_ge PosInf NegInf = True"
| "js_ge PosInf PosInf = True"
| "js_ge NegInf (Fin b) = False"
| "js_ge NegInf PosInf = False"
| "js_ge NegInf NegInf = True"
| "js_ge NaN b = False"
| "js_ge a NaN = False"

fun js_add :: "jsnum \<Rightarrow> jsnum \<Rightarrow> jsnum" where
  "js_add (Fin a) (Fin b) = fl (a + b)"
| "js_add NaN b = NaN"
| "js_add a NaN = NaN"
| "js_add PosInf NegInf = NaN"
| "js_add NegInf PosInf = NaN"
| "js_add PosInf b = PosInf"
| "js_add NegInf b = NegInf"
| "js_add (Fin a) PosInf = PosInf"
| "js_add (Fin a) NegInf = NegInf"

text \<open>\<open>a / b\<close>; a zero divisor is taken as positive zero.\<close>

fun js_div :: "jsnum \<Rightarrow> jsnum \<Rightarrow> jsnum" where
  "js_div (Fin a) (Fin b) =
     (if b \<noteq> 0 then fl (a / b)
      else if a = 0 then NaN else if 0 < a then PosInf else NegInf)"
| "js_div NaN b = NaN"
| "js_div a NaN = NaN"
| "js_div (Fin a) PosInf = Fin 0"
| "js_div (Fin a) NegInf = Fin 0"
| "js_div PosInf (Fin b) = (if 0 \<le> b then PosInf else NegInf)"
| "js_div NegInf (Fin b) = (if 0 \<le> b then NegInf else PosInf)"
| "js_div PosInf PosInf = NaN"
| "js_div PosInf NegInf = NaN"
| "js_div NegInf PosInf = NaN"
| "js_div NegInf NegInf = NaN"

text \<open>\<open>a * b\<close>\<close>

fun js_mul :: "jsnum \<Rightarrow> jsnum \<Rightarrow> jsnum" where
  "js_mul (Fin a) (Fin b) = fl (a * b)"
| "js_mul NaN b = NaN"
| "js_mul a NaN = NaN"
| "js_mul (Fin a) PosInf = (if a = 0 then NaN else if 0 < a then PosInf else NegInf)"
| "js_mul (Fin a) NegInf = (if a = 0 then NaN else if 0 < a then NegInf else PosInf)"
| "js_mul PosInf (Fin b) = (if b = 0 then NaN else if 0 < b then PosInf else NegInf)"
| "js_mul NegInf (Fin b) = (if b = 0 then NaN else if 0 < b then NegInf else PosInf)"
| "js_mul PosInf PosInf = PosInf"
| "js_mul PosInf NegInf = NegInf"
| "js_mul NegInf PosInf = NegInf"
| "js_mul NegInf NegInf = PosInf"

text \<open>\<open>Math.ceil\<close>\<close>

fun Math_ceil :: "jsnum \<Rightarrow> jsnum" where
  "Math_ceil (Fin x) = Fin (of_int \<lceil>x\<rceil>)"
| "Math_ceil NaN = NaN"
| "Math_ceil PosInf = PosInf"
| "Math_ceil NegInf = NegInf"

text \<open>\<open>Math.min\<close> and \<open>Math.max\<close> of two numbers, and of a spread list.\<close>

fun js_min2 :: "jsnum \<Rightarrow> jsnum \<Rightarrow> jsnum" where
  "js_min2 (Fin a) (Fin b) = Fin (min a b)"
| "js_min2 NaN b = NaN"
| "js_min2 a NaN = NaN"
| "js_min2 NegInf b = NegInf"
| "js_min2 a NegInf = NegInf"
| "js_min2 PosInf b = b"
| "js_min2 (Fin a) PosInf = Fin a"

fun js_max2 :: "jsnum \<Rightarrow> jsnum \<Rightarrow> jsnum" where
  "js_max2 (Fin a) (Fin b) = Fin (max a b)"
| "js_max2 NaN b = NaN"
| "js_max2 a NaN = NaN"
| "js_max2 PosInf b = PosInf"
| "js_max2 a PosInf = PosInf"
| "js_max2 NegInf b = b"
| "js_max2 (Fin a) NegInf = Fin a"

definition Math_min :: "jsnum list \<Rightarrow> jsnum" where
  "Math_min xs = foldl js_min2 PosInf xs"

definition Math_max :: "jsnum list \<Rightarrow> jsnum" where
  "Math_max xs = foldl js_max2 NegInf xs"

definition digit_char :: "nat \<Rightarrow> char" where
  "digit_char d = ''0123456789'' ! d"

fun dec :: "nat \<Rightarrow> string" where
  "dec n = (if n < 10 then [digit_char n] else dec (n div 10) @ [digit_char (n mod 10)])"

declare dec.simps [simp del]

text \<open>
  \<open>x.toFixed(f)\<close> for a finite \<open>x\<close> of magnitude below \<open>10^21\<close> (beyond that
  JavaScript switches to exponent notation, which is not modelled): the integer \<open>n\<close>
  nearest to \<open>|x| * 10^f\<close>, where \<open>x\<close> is the exact value of the double, the larger
  one on a tie, printed with at least \<open>f + 1\<close> digits and a point before the last
  \<open>f\<close>; a minus sign when \<open>x < 0\<close>.
\<close>

definition fixed_digits :: "nat \<Rightarrow> rat \<Rightarrow> string" where
  "fixed_digits f x =
     (let n = nat \<lfloor>\<bar>x\<bar> * 10 ^ f + 1 / 2\<rfloor>;
          ds = dec n;
          padded = replicate (f + 1 - length ds) CHR ''0'' @ ds;
          k = length padded - f
      in (if x < 0 then ''-'' else []) @ take k padded
         @ (if f = 0 then [] else CHR ''.'' # drop k padded))"

fun toFixed :: "nat \<Rightarrow> jsnum \<Rightarrow> string" where
  "toFixed f (Fin x) = fixed_digits f x"
| "toFixed f NaN = ''NaN''"
| "toFixed f PosInf = ''Infinity''"
| "toFixed f NegInf = ''-Infinity''"

definition is_digit :: "char \<Rightarrow> bool" where
  "is_digit c = (48 \<le> (of_char c :: nat) \<and> (of_char c :: nat) \<le> 57)"

text \<open>
  The code units that \<open>String.prototype.trim\<close> and \<open>parseFloat\<close> treat as white
  space (ECMAScript \<open>WhiteSpace\<close> and \<open>LineTerminator\<close>): tab, line feed, vertical
  tab, form feed, carriage return, space, no-break space, U+1680, U+2000 to U+200A,
  U+2028, U+2029, U+202F, U+205F, U+3000 and U+FEFF. A character of the model is a
  code unit below 256, so seven of them occur.
\<close>

definition is_white_space_code :: "nat \<Rightarrow> bool" where
  "is_white_space_code u =
     (u \<in> {9, 10, 11, 12, 13, 32, 160, 5760, 8232, 8233, 8239, 8287, 12288, 65279}
      \<or> (8192 \<le> u \<and> u \<le> 8202))"

definition is_space :: "char \<Rightarrow> bool" where
  "is_space c = is_white_space_code (of_char c)"

definition digits_value :: "string \<Rightarrow> nat" where
  "digits_value ds = foldl (\<lambda>acc c. acc * 10 + ((of_char c :: nat) - 48)) 0 ds"

text \<open>
  \<open>parseFloat(s)\<close>: leading white space is skipped, then the longest prefix that is a
  signed decimal literal (or \<open>Infinity\<close>) is read; when there is none the result is
  \<open>NaN\<close>, and the value read is rounded to a double. An exponent part is not read:
  the strings this program passes in are \<open>unknown\<close> and the results of \<open>toFixed\<close>.
\<close>

definition parseFloat :: "string \<Rightarrow> jsnum" where
  "parseFloat s =
     (let s1 = dropWhile is_space s;
          neg = (case s1 of [] \<Rightarrow> False | c # r \<Rightarrow> c = CHR ''-'');
          s2 = (case s1 of [] \<Rightarrow> [] | c # r \<Rightarrow> if c = CHR ''-'' \<or> c = CHR ''+'' then r else s1);
          ip = takeWhile is_digit s2;
          r1 = dropWhile is_digit s2;
          fp = (case r1 of [] \<Rightarrow> [] | c # r \<Rightarrow> if c = CHR ''.'' then takeWhile is_digit r else []);
          v = of_nat (digits_value ip) + of_nat (digits_value fp) / 10 ^ length fp
      in if prefix ''Infinity'' s2 then (if neg then NegInf else PosInf)
         else if ip = [] \<and> fp = [] then NaN
         else fl (if neg then - v else v))"

text \<open>A decimal string with two fraction digits: digits, a point, two digits.\<close>

definition is_decimal_string :: "string \<Rightarrow> bool" where
  "is_decimal_string s =
     (takeWhile is_digit s \<noteq> []
      \<and> (case dropWhile is_digit s of
            [] \<Rightarrow> False
          | c # fp \<Rightarrow> c = CHR ''.'' \<and> length fp = 2 \<and> list_all is_digit fp))"

section \<open>Size estimate (audioUtils.js, estimateAudioDuration)\<close>

text \<open>\<open>sizeMB > 0 ? (sizeMB / 10).toFixed(2) : "unknown"\<close>\<close>

definition estimateAudioDuration :: "jsnum \<Rightarrow> string" where
  "estimateAudioDuration sizeMB =
     (if js_gt sizeMB (Fin 0) then toFixed 2 (js_div sizeMB (Fin 10)) else ''unknown'')"

section \<open>Temporary paths (fileUtils.js, createTempPaths)\<close>

text \<open>
  \<open>createTempPaths\<close> reads the temporary directory, the clock (\<open>Date.now()\<close>, in
  milliseconds) and \<open>Math.random().toString(36).substring(7)\<close>, a possibly empty run
  of base-36 digits; the three are arguments here. \<open>path.join\<close> puts a slash between
  the directory and the file name; its normalisation only rewrites the directory part,
  because the file name has no slash, and is left out.
\<close>

record temp_paths =
  tempDir :: string
  uniqueId :: string
  inputPath :: string
  outputPath :: string

definition path_join :: "string \<Rightarrow> string \<Rightarrow> string" where
  "path_join dir name = dir @ ''/'' @ name"

definition createTempPaths :: "string \<Rightarrow> nat \<Rightarrow> string \<Rightarrow> temp_paths" where
  "createTempPaths tmpdir now random36 =
     (let uid = dec now @ ''-'' @ random36
      in \<lparr> tempDir = tmpdir,
           uniqueId = uid,
           inputPath = path_join tmpdir (''input-'' @ uid @ ''.webm''),
           outputPath = path_join tmpdir (''output-'' @ uid @ ''.mp3'') \<rparr>)"

definition is_base36 :: "char \<Rightarrow> bool" where
  "is_base36 c = (is_digit c \<or> (97 \<le> (of_char c :: nat) \<and> (of_char c :: nat) \<le> 122))"

section \<open>Errors and JSON values\<close>

text \<open>
  Every value the source throws is an \<open>Error\<close> object with a message. The
  constructors record where it is thrown; \<open>message\<close> is its \<open>error.message\<close>.
\<close>

datatype exn =
    TypeError string
  | SyntaxError string
  | MissingApiKey
  | DownloadError string
  | FFmpegNotFound
  | ExtractionError string
  | FileTooLarge string
  | InvalidFileSize
  | ENOENT string
  | ProviderError string

fun message :: "exn \<Rightarrow> string" where
  "message (TypeError m) = m"
| "message (SyntaxError m) = m"
| "message MissingApiKey = ''OPENAI_API_KEY is not set.''"
| "message (DownloadError m) = m"
| "message FFmpegNotFound = ''FFmpeg is not installed or not found.''"
| "message (ExtractionError m) = m"
| "message (FileTooLarge m) = m"
| "message InvalidFileSize = ''Invalid file size calculation: NaN''"
| "message (ENOENT p) = ''ENOENT: no such file or directory, stat '' @ p"
| "message (ProviderError m) = m"

datatype json =
    JNull
  | JBool bool
  | JNum rat
  | JStr string
  | JArr "json list"
  | JObj "(string \<times> json) list"

fun js_truthy :: "json \<Rightarrow> bool" where
  "js_truthy JNull = False"
| "js_truthy (JBool b) = b"
| "js_truthy (JNum n) = (n \<noteq> 0)"
| "js_truthy (JStr s) = (s \<noteq> [])"
| "js_truthy (JArr xs) = True"
| "js_truthy (JObj kvs) = True"

text \<open>
  The own enumerable properties that an object spread \<open>{...v}\<close> copies: the fields of
  an object, the indexed elements of an array or string, nothing for the other values.
\<close>

fun own_props :: "json \<Rightarrow> (string \<times> json) list" where
  "own_props (JObj kvs) = kvs"
| "own_props (JArr xs) = zip (map dec [0..<length xs]) xs"
| "own_props (JStr s) = zip (map dec [0..<length s]) (map (\<lambda>c. JStr [c]) s)"
| "own_props JNull = []"
| "own_props (JBool b) = []"
| "own_props (JNum n) = []"

fun obj_set :: "string \<Rightarrow> json \<Rightarrow> (string \<times> json) list \<Rightarrow> (string \<times> json) list" where
  "obj_set k v [] = [(k, v)]"
| "obj_set k v ((k', v') # kvs) =
     (if k = k' then (k, v) # kvs else (k', v') # obj_set k v kvs)"

definition obj_get :: "(string \<times> json) list \<Rightarrow> string \<Rightarrow> json option" where
  "obj_get kvs k = map_of kvs k"

record token_usage =
  promptTokens :: nat
  completionTokens :: nat
  totalTokens :: nat

definition zero_usage :: token_usage where
  "zero_usage = \<lparr> promptTokens = 0, completionTokens = 0, totalTokens = 0 \<rparr>"

definition usage_json :: "token_usage \<Rightarrow> json" where
  "usage_json u =
     JObj [(''promptTokens'', JNum (of_nat (promptTokens u))),
           (''completionTokens'', JNum (of_nat (completionTokens u))),
           (''totalTokens'', JNum (of_nat (totalTokens u)))]"

section \<open>External collaborators\<close>

text \<open>
  A chat completion returns its choices (the message content of each, \<open>None\<close> for a
  \<open>null\<close> content) and, when present, its usage counters. A request is identified by
  what varies between calls; the fixed system prompt of the sentiment call, the model
  name and the token limits are constants of the source.
\<close>

record chat_response =
  choices :: "string option list"
  usage :: "token_usage option"

datatype chat_request =
    SentimentRequest string
  | SummaryRequest string string

datatype download_outcome =
    RequestFailed string
  | StreamFailed string "nat option"
  | Completed nat "string option"

datatype extract_outcome =
    ExtractFailed string "nat option"
  | ExtractDone nat

text \<open>
  The environment of one request: configuration, the clock and random source read by
  \<open>createTempPaths\<close>, and the outcome of every external call. \<open>http_get\<close> answers
  the download of a URL: the request fails, or the stream fails after leaving a partial
  file (or none), or it completes with a number of bytes and the \<open>content-type\<close>
  header. \<open>run_extract\<close> answers the transcoding tool: it fails, possibly leaving a
  partial output file, or writes an output of the given size. \<open>unlink_fails\<close> tells for
  which paths \<open>fs.unlinkSync\<close> throws. \<open>elapsed\<close> stands for the measured durations.
\<close>

record env =
  OPENAI_API_KEY :: "string option"
  client_cached :: bool
  ffmpegPath :: "string option"
  os_tmpdir :: string
  date_now :: nat
  math_random36 :: string
  http_get :: "string \<Rightarrow> download_outcome"
  run_extract :: "string \<Rightarrow> string \<Rightarrow> extract_outcome"
  whisper :: "string \<Rightarrow> exn + string"
  chat :: "chat_request \<Rightarrow> exn + chat_response"
  JSON_parse :: "string \<Rightarrow> json option"
  unlink_fails :: "string \<Rightarrow> bool"
  elapsed :: nat
  DEFAULT_SUMMARIZATION_PROMPT :: string

text \<open>
  The file system maps a path to the size of the file stored there. The effects of a
  request are recorded in the order in which the source performs them; \<open>Upload p n\<close>
  is the transcription call on the file at \<open>p\<close>, which holds \<open>n\<close> bytes at that
  moment.
\<close>

datatype effect =
    Download string string
  | SizeCheck string
  | Extract string string
  | Upload string "nat option"
  | Unlink string bool
  | Respond nat

record world =
  files :: "string \<Rightarrow> nat option"
  effects :: "effect list"

definition emit :: "effect \<Rightarrow> world \<Rightarrow> world" where
  "emit e w = w\<lparr> effects := effects w @ [e] \<rparr>"

definition write_file :: "string \<Rightarrow> nat \<Rightarrow> world \<Rightarrow> world" where
  "write_file p n w = w\<lparr> files := (files w)(p := Some n) \<rparr>"

definition remove_file :: "string \<Rightarrow> world \<Rightarrow> world" where
  "remove_file p w = w\<lparr> files := (files w)(p := None) \<rparr>"

text \<open>\<open>stats.size / (1024 * 1024)\<close>, where \<open>stats.size\<close> is the byte count as a double.\<close>

definition megabytes :: "nat \<Rightarrow> jsnum" where
  "megabytes n = js_div (fl (of_nat n)) (js_mul (Fin 1024) (Fin 1024))"

text \<open>\<open>getOpenAIClient\<close>: the cached client (a module variable), or a new one when
  \<open>process.env.OPENAI_API_KEY\<close> is set; both are arguments here.\<close>

definition getOpenAIClient :: "bool \<Rightarrow> string option \<Rightarrow> exn + unit" where
  "getOpenAIClient cached key =
     (if cached then Inr ()
      else (case key of
              None \<Rightarrow> Inl MissingApiKey
            | Some k \<Rightarrow> if k = [] then Inl MissingApiKey else Inr ()))"

section \<open>File operations (fileUtils.js, audioUtils.js)\<close>

record size_info =
  sizeBytes :: nat
  sizeMB :: jsnum

record download_result = size_info +
  contentType :: "string option"

text \<open>\<open>response.headers["content-type"] || null\<close>: an empty header counts as absent.\<close>

definition header_or_null :: "string option \<Rightarrow> string option" where
  "header_or_null header =
     (case header of
        None \<Rightarrow> None
      | Some h \<Rightarrow> if h = [] then None else Some h)"

text \<open>\<open>downloadFile(url, outputPath)\<close>\<close>

definition downloadFile ::
  "env \<Rightarrow> string \<Rightarrow> string \<Rightarrow> world \<Rightarrow> (exn + download_result) \<times> world" where
  "downloadFile env url outPath w =
     (case http_get env url of
        RequestFailed m \<Rightarrow> (Inl (DownloadError m), w)
      | StreamFailed m partial \<Rightarrow>
          (Inl (DownloadError m),
           emit (Download url outPath)
             (case partial of None \<Rightarrow> w | Some n \<Rightarrow> write_file outPath n w))
      | Completed n header \<Rightarrow>
          (Inr \<lparr> sizeBytes = n, sizeMB = megabytes n, contentType = header_or_null header \<rparr>,
           emit (Download url outPath) (write_file outPath n w)))"

text \<open>
  \<open>validateFileSize(filePath)\<close>: \<open>fs.statSync\<close> throws when there is no file; more
  than 25 MB is refused. The \<open>isNaN\<close> guard of the source cannot fire on a size read
  from the file system; it is kept as a branch.
\<close>

definition validateFileSize :: "string \<Rightarrow> world \<Rightarrow> (exn + size_info) \<times> world" where
  "validateFileSize filePath w =
     (case files w filePath of
        None \<Rightarrow> (Inl (ENOENT filePath), w)
      | Some n \<Rightarrow>
          (let sizeInMB = megabytes n; w' = emit (SizeCheck filePath) w
           in if js_gt sizeInMB (Fin 25) then
                (Inl (FileTooLarge (''Audio file is too large: '' @ toFixed 2 sizeInMB
                                     @ ''MB. Maximum size is 25MB.'')), w')
              else if sizeInMB = NaN then (Inl InvalidFileSize, w')
              else (Inr \<lparr> sizeBytes = n, sizeMB = sizeInMB \<rparr>, w')))"

record extraction_result =
  outputSizeBytes :: nat
  outputSizeMB :: jsnum

text \<open>
  \<open>extractAudioFromVideo(inputPath, outputPath, ffmpegPath)\<close>: one run of the
  transcoding tool, then \<open>fs.statSync\<close> of the output and of the input (for the log).
  The source compares no size against a limit here.
\<close>

definition extractAudioFromVideo ::
  "env \<Rightarrow> string \<Rightarrow> string \<Rightarrow> world \<Rightarrow> (exn + extraction_result) \<times> world" where
  "extractAudioFromVideo env inPath outPath w =
     (case run_extract env inPath outPath of
        ExtractFailed m partial \<Rightarrow>
          (Inl (ExtractionError m),
           emit (Extract inPath outPath)
             (case partial of None \<Rightarrow> w | Some n \<Rightarrow> write_file outPath n w))
      | ExtractDone n \<Rightarrow>
          (let w' = emit (Extract inPath outPath) (write_file outPath n w)
           in case files w' outPath of
                None \<Rightarrow> (Inl (ENOENT outPath), w')
              | Some outSize \<Rightarrow>
                  (case files w' inPath of
                     None \<Rightarrow> (Inl (ENOENT inPath), w')
                   | Some inSize \<Rightarrow>
                       (Inr \<lparr> outputSizeBytes = outSize,
                              outputSizeMB = megabytes outSize \<rparr>, w'))))"

record cleaned_file =
  cleaned_path :: string
  cleaned_size :: "nat option"
  cleaned :: bool

text \<open>
  \<open>cleanupFiles(filePaths)\<close>: a path whose file does not exist is skipped; a failing
  \<open>unlinkSync\<close> is caught and recorded as \<open>cleaned: false\<close>.
\<close>

fun cleanupFiles :: "env \<Rightarrow> string list \<Rightarrow> world \<Rightarrow> cleaned_file list \<times> world" where
  "cleanupFiles env [] w = ([], w)"
| "cleanupFiles env (filePath # rest) w =
     (if filePath \<noteq> [] \<and> files w filePath \<noteq> None then
        (if unlink_fails env filePath then
           (let (cs, w') = cleanupFiles env rest (emit (Unlink filePath False) w)
            in (\<lparr> cleaned_path = filePath, cleaned_size = None, cleaned = False \<rparr> # cs, w'))
         else
           (let (cs, w') =
                  cleanupFiles env rest (emit (Unlink filePath True) (remove_file filePath w))
            in (\<lparr> cleaned_path = filePath, cleaned_size = files w filePath,
                   cleaned = True \<rparr> # cs, w')))
      else cleanupFiles env rest w)"

section \<open>Model calls (openaiUtils.js)\<close>

record transcription_result =
  transcript :: string
  transcript_length :: nat

text \<open>\<open>transcribeAudio(audioFilePath)\<close>: nothing is caught here.\<close>

definition transcribeAudio ::
  "env \<Rightarrow> string \<Rightarrow> world \<Rightarrow> (exn + transcription_result) \<times> world" where
  "transcribeAudio env audioFilePath w =
     (case getOpenAIClient (client_cached env) (OPENAI_API_KEY env) of
        Inl e \<Rightarrow> (Inl e, w)
      | Inr u \<Rightarrow>
          (case whisper env audioFilePath of
             Inl e \<Rightarrow> (Inl e, emit (Upload audioFilePath (files w audioFilePath)) w)
           | Inr t \<Rightarrow>
               (Inr \<lparr> transcript = t, transcript_length = length t \<rparr>,
                emit (Upload audioFilePath (files w audioFilePath)) w)))"

text \<open>
  The \<open>try\<close> block of \<open>analyzeSentiment\<close>: client, completion, \<open>JSON.parse\<close> of the
  first choice's content (\<open>JSON.parse(null)\<close> parses the text \<open>null\<close>), then the new
  result object \<open>{...sentimentData, processingTime, tokenUsage}\<close>.
\<close>

definition analyzeSentiment_try :: "env \<Rightarrow> string \<Rightarrow> exn + (string \<times> json) list" where
  "analyzeSentiment_try env txt =
     (case getOpenAIClient (client_cached env) (OPENAI_API_KEY env) of
        Inl e \<Rightarrow> Inl e
      | Inr u \<Rightarrow>
          (case chat env (SentimentRequest txt) of
             Inl e \<Rightarrow> Inl e
           | Inr response \<Rightarrow>
               (case choices response of
                  [] \<Rightarrow> Inl (TypeError ''Cannot read properties of undefined'')
                | c # cs \<Rightarrow>
                    (case JSON_parse env (case c of None \<Rightarrow> ''null'' | Some s \<Rightarrow> s) of
                       None \<Rightarrow> Inl (SyntaxError ''Unexpected token'')
                     | Some sentimentData \<Rightarrow>
                         (case usage response of
                            None \<Rightarrow> Inl (TypeError ''Cannot read properties of undefined'')
                          | Some us \<Rightarrow>
                              Inr (obj_set ''tokenUsage'' (usage_json us)
                                    (obj_set ''processingTime'' (JNum (of_nat (elapsed env)))
                                      (own_props sentimentData))))))))"

text \<open>The initial \<open>result\<close> of \<open>analyzeSentiment\<close>, and what its \<open>catch\<close> block makes of it.\<close>

definition sentiment_initial :: "(string \<times> json) list" where
  "sentiment_initial =
     [(''sentiment'', JNull), (''confidence'', JNull), (''emotions'', JArr []),
      (''summary'', JNull), (''processingTime'', JNum 0),
      (''tokenUsage'', usage_json zero_usage), (''error'', JBool False)]"

definition sentiment_catch :: "env \<Rightarrow> (string \<times> json) list \<Rightarrow> (string \<times> json) list" where
  "sentiment_catch env result =
     obj_set ''summary'' (JStr ''Sentiment analysis could not be completed'')
       (obj_set ''emotions'' (JArr [])
         (obj_set ''confidence'' (JNum 0)
           (obj_set ''sentiment'' (JStr ''neutral'')
             (obj_set ''error'' (JBool True)
               (obj_set ''processingTime'' (JNum (of_nat (elapsed env))) result)))))"

definition analyzeSentiment :: "env \<Rightarrow> string \<Rightarrow> exn + (string \<times> json) list" where
  "analyzeSentiment env txt =
     (case analyzeSentiment_try env txt of
        Inr result \<Rightarrow> Inr result
      | Inl error \<Rightarrow> Inr (sentiment_catch env sentiment_initial))"

text \<open>\<open>customPrompt || fallback\<close>: the fallback for a missing or empty prompt.\<close>

definition chosen_prompt :: "string option \<Rightarrow> string \<Rightarrow> string" where
  "chosen_prompt customPrompt fallback =
     (case customPrompt of
        None \<Rightarrow> fallback
      | Some p \<Rightarrow> if p = [] then fallback else p)"

record summary_result =
  summary :: string
  processingTime :: nat
  tokenUsage :: token_usage
  error :: bool

definition trim :: "string \<Rightarrow> string" where
  "trim s = rev (dropWhile is_space (rev (dropWhile is_space s)))"

text \<open>
  The \<open>try\<close> block of \<open>generateSummary\<close>, with the prompt
  \<open>customPrompt || DEFAULT_SUMMARIZATION_PROMPT\<close>. \<open>content.trim()\<close> throws on a
  \<open>null\<close> content.
\<close>

definition generateSummary_try :: "env \<Rightarrow> string \<Rightarrow> string option \<Rightarrow> exn + summary_result" where
  "generateSummary_try env txt customPrompt =
     (let promptToUse = chosen_prompt customPrompt (DEFAULT_SUMMARIZATION_PROMPT env)
      in case getOpenAIClient (client_cached env) (OPENAI_API_KEY env) of
           Inl e \<Rightarrow> Inl e
         | Inr u \<Rightarrow>
             (case chat env (SummaryRequest promptToUse txt) of
                Inl e \<Rightarrow> Inl e
              | Inr response \<Rightarrow>
                  (case choices response of
                     [] \<Rightarrow> Inl (TypeError ''Cannot read properties of undefined'')
                   | c # cs \<Rightarrow>
                       (case c of
                          None \<Rightarrow> Inl (TypeError ''Cannot read properties of null'')
                        | Some content \<Rightarrow>
                            (case usage response of
                               None \<Rightarrow> Inl (TypeError ''Cannot read properties of undefined'')
                             | Some us \<Rightarrow>
                                 Inr \<lparr> summary = trim content, processingTime = elapsed env,
                                        tokenUsage = us, error = False \<rparr>)))))"

definition generateSummary :: "env \<Rightarrow> string \<Rightarrow> string option \<Rightarrow> exn + summary_result" where
  "generateSummary env txt customPrompt =
     (case generateSummary_try env txt customPrompt of
        Inr result \<Rightarrow> Inr result
      | Inl err \<Rightarrow>
          Inr \<lparr> summary = ''Summarization could not be completed due to an error.'',
                 processingTime = elapsed env, tokenUsage = zero_usage, error = True \<rparr>)"

section \<open>The transcription route (routes/transcribe.js)\<close>

text \<open>
  The request body, when the JSON middleware produced one: its \<open>url\<close> is missing,
  present but not a string, or a string; \<open>summarizationPrompt\<close> is optional.
\<close>

datatype js_url = UrlUndefined | UrlNotString | UrlString string

record request_body =
  url :: js_url
  summarizationPrompt :: "string option"

text \<open>
  The \<open>sentiment\<close> object of the response: the four fields read from the sentiment
  result (\<open>None\<close> for \<open>undefined\<close>) and \<open>sentimentResult.error || false\<close>.
\<close>

record sentiment_view =
  sv_sentiment :: "json option"
  sv_confidence :: "json option"
  sv_emotions :: "json option"
  sv_summary :: "json option"
  sv_error :: json

record success_body =
  res_url :: js_url
  transcription :: string
  res_sentiment :: sentiment_view
  res_summary :: string
  transcriptionLength :: nat
  estimatedDurationMinutes :: jsnum
  audioSizeMB :: jsnum
  fileWasAudio :: bool

datatype response_body =
    ErrorOnly string
  | Failure string string js_url
  | Success success_body

datatype response = Response nat response_body

fun status :: "response \<Rightarrow> nat" where
  "status (Response s b) = s"

fun body :: "response \<Rightarrow> response_body" where
  "body (Response s b) = b"

definition sentiment_response :: "(string \<times> json) list \<Rightarrow> sentiment_view" where
  "sentiment_response r =
     \<lparr> sv_sentiment = obj_get r ''sentiment'',
       sv_confidence = obj_get r ''confidence'',
       sv_emotions = obj_get r ''emotions'',
       sv_summary = obj_get r ''summary'',
       sv_error = (case obj_get r ''error'' of
                     None \<Rightarrow> JBool False
                   | Some v \<Rightarrow> if js_truthy v then v else JBool False) \<rparr>"

text \<open>
  The body of the \<open>try\<close> block once both temp paths are assigned, in three parts.
  Step 3 classifies the downloaded file: the audio branch calls \<open>validateFileSize\<close> on
  the downloaded file and uses it directly; the other branch requires \<open>ffmpegPath\<close>
  and calls \<open>extractAudioFromVideo\<close>, and nothing else, before using the extracted
  file. The result is \<open>outputSizeMB\<close> and \<open>audioFilePath\<close>.
\<close>

definition prepare_audio ::
  "env \<Rightarrow> bool \<Rightarrow> string \<Rightarrow> string \<Rightarrow> world \<Rightarrow> (exn + jsnum \<times> string) \<times> world" where
  "prepare_audio env fileIsAudio tempInputPath tempOutputPath w =
     (if fileIsAudio then
        (case validateFileSize tempInputPath w of
           (Inl e, w') \<Rightarrow> (Inl e, w')
         | (Inr validationResult, w') \<Rightarrow> (Inr (sizeMB validationResult, tempInputPath), w'))
      else
        (case ffmpegPath env of
           None \<Rightarrow> (Inl FFmpegNotFound, w)
         | Some fp \<Rightarrow>
             (case extractAudioFromVideo env tempInputPath tempOutputPath w of
                (Inl e, w') \<Rightarrow> (Inl e, w')
              | (Inr extractionResult, w') \<Rightarrow>
                  (Inr (outputSizeMB extractionResult, tempOutputPath), w'))))"

text \<open>
  Steps 5 to 7 and the success body: the duration estimate, sentiment, summary, then
  \<open>cleanupFiles\<close> on the input path, and on the output path too when audio was
  extracted. Wall-clock timings and token totals of the body are left out.
\<close>

definition finish_request ::
  "env \<Rightarrow> js_url \<Rightarrow> string option \<Rightarrow> bool \<Rightarrow> string \<Rightarrow> string \<Rightarrow> jsnum
     \<Rightarrow> transcription_result \<Rightarrow> world \<Rightarrow> (exn + success_body) \<times> world" where
  "finish_request env originalUrl prompt fileIsAudio tempInputPath tempOutputPath outSizeMB
     transcriptionResult w =
     (let audioDurationMinutes = estimateAudioDuration outSizeMB
      in case analyzeSentiment env (transcript transcriptionResult) of
           Inl e \<Rightarrow> (Inl e, w)
         | Inr sentimentResult \<Rightarrow>
             (case generateSummary env (transcript transcriptionResult) prompt of
                Inl e \<Rightarrow> (Inl e, w)
              | Inr summaryResult \<Rightarrow>
                  (let filesToCleanup = (if fileIsAudio then [tempInputPath]
                                         else [tempInputPath, tempOutputPath]);
                       (cleanedFiles, w') = cleanupFiles env filesToCleanup w
                   in (Inr \<lparr> res_url = originalUrl,
                              transcription = transcript transcriptionResult,
                              res_sentiment = sentiment_response sentimentResult,
                              res_summary = summary summaryResult,
                              transcriptionLength = transcript_length transcriptionResult,
                              estimatedDurationMinutes = parseFloat audioDurationMinutes,
                              audioSizeMB = parseFloat (toFixed 2 outSizeMB),
                              fileWasAudio = fileIsAudio \<rparr>, w'))))"

text \<open>Steps 2 to 7 in sequence; the first error ends them.\<close>

definition transcribe_steps ::
  "env \<Rightarrow> js_url \<Rightarrow> string \<Rightarrow> string option \<Rightarrow> string \<Rightarrow> string \<Rightarrow> world
     \<Rightarrow> (exn + success_body) \<times> world" where
  "transcribe_steps env originalUrl u prompt tempInputPath tempOutputPath w0 =
     (case downloadFile env u tempInputPath w0 of
        (Inl e, w1) \<Rightarrow> (Inl e, w1)
      | (Inr dl, w1) \<Rightarrow>
          (let fileIsAudio = isAudioFile tempInputPath (contentType dl)
           in case prepare_audio env fileIsAudio tempInputPath tempOutputPath w1 of
                (Inl e, w2) \<Rightarrow> (Inl e, w2)
              | (Inr (outSizeMB, audioFilePath), w2) \<Rightarrow>
                  (case transcribeAudio env audioFilePath w2 of
                     (Inl e, w3) \<Rightarrow> (Inl e, w3)
                   | (Inr transcriptionResult, w3) \<Rightarrow>
                       finish_request env originalUrl prompt fileIsAudio tempInputPath
                         tempOutputPath outSizeMB transcriptionResult w3)))"

text \<open>
  The \<open>catch\<close> block: \<open>cleanupFiles\<close> on the temp paths that are not \<open>null\<close>, then
  the 500 response with \<open>error.message || "Unknown error occurred"\<close>.
\<close>

definition filter_Boolean :: "string option list \<Rightarrow> string list" where
  "filter_Boolean ps = concat (map (\<lambda>p. case p of None \<Rightarrow> [] | Some s \<Rightarrow> if s = [] then [] else [s]) ps)"

definition transcribe_catch ::
  "env \<Rightarrow> exn \<Rightarrow> js_url \<Rightarrow> string option \<Rightarrow> string option \<Rightarrow> world \<Rightarrow> response \<times> world" where
  "transcribe_catch env err originalUrl tempInputPath tempOutputPath w =
     (let filesToCleanup = filter_Boolean [tempInputPath, tempOutputPath];
          (cleanedFiles, w') = cleanupFiles env filesToCleanup w;
          errorMessage = (if message err = [] then ''Unknown error occurred'' else message err)
      in (Response 500 (Failure ''Failed to transcribe audio'' errorMessage originalUrl),
          emit (Respond 500) w'))"

text \<open>Step 1: \<open>createTempPaths()\<close> in the environment of the request.\<close>

definition request_paths :: "env \<Rightarrow> temp_paths" where
  "request_paths env = createTempPaths (os_tmpdir env) (date_now env) (math_random36 env)"

text \<open>
  \<open>router.post("/transcribe")\<close>. Destructuring a missing body throws inside the
  \<open>try\<close> block, before any temp path is assigned. The two early returns (400 and the
  configuration error) precede \<open>createTempPaths\<close>.
\<close>

definition transcribe_route :: "env \<Rightarrow> request_body option \<Rightarrow> world \<Rightarrow> response \<times> world" where
  "transcribe_route env req w =
     (case req of
        None \<Rightarrow>
          transcribe_catch env (TypeError ''Cannot destructure property of req.body'')
            UrlUndefined None None w
      | Some b \<Rightarrow>
          (case url b of
             UrlUndefined \<Rightarrow>
               (Response 400 (ErrorOnly ''URL is required and must be a string''),
                emit (Respond 400) w)
           | UrlNotString \<Rightarrow>
               (Response 400 (ErrorOnly ''URL is required and must be a string''),
                emit (Respond 400) w)
           | UrlString u \<Rightarrow>
               (if u = [] then
                  (Response 400 (ErrorOnly ''URL is required and must be a string''),
                   emit (Respond 400) w)
                else if (case OPENAI_API_KEY env of None \<Rightarrow> True | Some k \<Rightarrow> k = []) then
                  (Response 500
                     (ErrorOnly ''Server configuration error: OpenAI API key not set''),
                   emit (Respond 500) w)
                else
                  (let tp = request_paths env;
                       tempInputPath = inputPath tp;
                       tempOutputPath = outputPath tp
                   in case transcribe_steps env (url b) u (summarizationPrompt b)
                             tempInputPath tempOutputPath w of
                        (Inr ok, w') \<Rightarrow> (Response 200 (Success ok), emit (Respond 200) w')
                      | (Inl err, w') \<Rightarrow>
                          transcribe_catch env err (url b) (Some tempInputPath)
                            (Some tempOutputPath) w'))))"

section \<open>Frame sampling (videoUtils.js, extractFrames)\<close>

text \<open>
  The duration resolved from the probe: \<open>formatDuration\<close> and \<open>streamDuration\<close> are
  the two candidates after \<open>Number(...)\<close> (\<open>NaN\<close> for a missing one); the first
  finite one is taken, else 0, and \<open>parsed || 0\<close> maps a zero to 0.
\<close>

definition resolve_duration :: "jsnum \<Rightarrow> jsnum \<Rightarrow> jsnum" where
  "resolve_duration formatDuration streamDuration =
     (let parsed = (if js_isFinite formatDuration then formatDuration
                    else if js_isFinite streamDuration then streamDuration
                    else Fin 0)
      in if parsed = Fin 0 \<or> parsed = NaN then Fin 0 else parsed)"

definition hasDuration :: "jsnum \<Rightarrow> bool" where
  "hasDuration videoDuration = (js_isFinite videoDuration \<and> js_gt videoDuration (Fin 0))"

text \<open>
  \<open>frameCount\<close>: \<open>Math.min(maxFrames, Math.max(0, Math.ceil(videoDuration /
  intervalSeconds)))\<close> when the duration is usable, else 1. The interval is a finite
  double and \<open>maxFrames\<close> an integer, so the result is an integer, read off the
  rounded quotient: for a quotient \<open>Infinity\<close> (zero interval, or overflow) the minimum
  is \<open>maxFrames\<close>; a \<open>NaN\<close> quotient would make the bound \<open>NaN\<close>, under which the
  loop below does not run.
\<close>

definition frameCount :: "jsnum \<Rightarrow> rat \<Rightarrow> int \<Rightarrow> int" where
  "frameCount videoDuration intervalSeconds maxFrames =
     (if hasDuration videoDuration then
        (case Math_ceil (js_div videoDuration (Fin intervalSeconds)) of
           Fin c \<Rightarrow> min maxFrames (max 0 \<lfloor>c\<rfloor>)
         | PosInf \<Rightarrow> maxFrames
         | NegInf \<Rightarrow> min maxFrames 0
         | NaN \<Rightarrow> 0)
      else 1)"

text \<open>
  The sampling loop \<open>for (let i = 0; i < frameCount; i++)\<close>, with its \<open>break\<close> on
  a timestamp that reaches the duration. It yields the pairs of frame index and
  timestamp for which a frame is requested.
\<close>

function sample_loop :: "jsnum \<Rightarrow> rat \<Rightarrow> int \<Rightarrow> nat \<Rightarrow> (nat \<times> jsnum) list" where
  "sample_loop videoDuration intervalSeconds fc i =
     (if int i < fc then
        (let timestamp = (if hasDuration videoDuration
                          then js_mul (Fin (of_nat i)) (Fin intervalSeconds) else Fin 0)
         in if hasDuration videoDuration \<and> js_ge timestamp videoDuration then []
            else (i, timestamp) # sample_loop videoDuration intervalSeconds fc (Suc i))
      else [])"
  by pat_completeness auto
termination
  by (relation "measure (\<lambda>(d, iv, fc, i). nat (fc - int i))") auto

declare sample_loop.simps [simp del]

definition frame_points :: "jsnum \<Rightarrow> rat \<Rightarrow> int \<Rightarrow> (nat \<times> jsnum) list" where
  "frame_points videoDuration intervalSeconds maxFrames =
     sample_loop videoDuration intervalSeconds
       (frameCount videoDuration intervalSeconds maxFrames) 0"

definition frame_name :: "string \<Rightarrow> nat \<times> jsnum \<Rightarrow> string" where
  "frame_name outputDir pt =
     path_join outputDir
       (''frame_'' @ dec (fst pt) @ ''_'' @ toFixed 1 (snd pt) @ ''s.jpg'')"

section \<open>Aggregation of frame analyses (videoUtils.js, aggregateFrameAnalyses)\<close>

text \<open>
  A property read from parsed JSON is \<open>undefined\<close> (missing), \<open>null\<close> or a value.
  A frame analysis follows the schema of the prompt: \<open>people.count\<close> is a number,
  \<open>activities\<close> and \<open>objects\<close> are arrays of strings, \<open>location.type\<close> and
  \<open>location.description\<close> are strings, each possibly missing or \<open>null\<close>.
\<close>

datatype 'a opt = Undefined | Null | Def 'a

record people_info =
  people_count :: "jsnum opt"
  people_details :: "json list opt"

record location_info =
  location_type :: "string opt"
  location_description :: "string opt"

record frame_json =
  people :: "people_info opt"
  activities :: "string list opt"
  location :: "location_info opt"
  objects :: "string list opt"

record frame_analysis =
  frameIndex :: nat
  frame_timestamp :: jsnum
  analysis :: "frame_json opt"
  frame_usage :: token_usage

text \<open>\<open>fa.analysis?.people?.count\<close>\<close>

definition count_of :: "frame_analysis \<Rightarrow> jsnum opt" where
  "count_of fa =
     (case analysis fa of
        Def a \<Rightarrow> (case people a of Def p \<Rightarrow> people_count p | _ \<Rightarrow> Undefined)
      | _ \<Rightarrow> Undefined)"

text \<open>\<open>v || 0\<close> on a count: \<open>undefined\<close>, \<open>null\<close>, 0 and \<open>NaN\<close> are falsy.\<close>

definition or_zero :: "jsnum opt \<Rightarrow> jsnum opt" where
  "or_zero v =
     (case v of
        Def n \<Rightarrow> if n = Fin 0 \<or> n = NaN then Def (Fin 0) else Def n
      | _ \<Rightarrow> Def (Fin 0))"

definition peopleCounts :: "frame_analysis list \<Rightarrow> jsnum opt list" where
  "peopleCounts frameAnalyses =
     filter (\<lambda>c. c \<noteq> Null \<and> c \<noteq> Undefined) (map (\<lambda>fa. or_zero (count_of fa)) frameAnalyses)"

text \<open>The number an arithmetic operation sees: \<open>Number(null)\<close> is 0, \<open>Number(undefined)\<close> is \<open>NaN\<close>.\<close>

fun to_number :: "jsnum opt \<Rightarrow> jsnum" where
  "to_number (Def n) = n"
| "to_number Null = Fin 0"
| "to_number Undefined = NaN"

text \<open>A JavaScript \<open>Set\<close> keeps each value once, in the order of first insertion.\<close>

definition set_add :: "'a list \<Rightarrow> 'a \<Rightarrow> 'a list" where
  "set_add s x = (if x \<in> set s then s else s @ [x])"

definition the_analysis :: "frame_analysis \<Rightarrow> frame_json" where
  "the_analysis fa =
     (case analysis fa of
        Def a \<Rightarrow> a
      | _ \<Rightarrow> \<lparr> people = Undefined, activities = Undefined, location = Undefined,
               objects = Undefined \<rparr>)"

definition frame_activities :: "frame_analysis \<Rightarrow> string list" where
  "frame_activities fa = (case activities (the_analysis fa) of Def xs \<Rightarrow> xs | _ \<Rightarrow> [])"

definition frame_objects :: "frame_analysis \<Rightarrow> string list" where
  "frame_objects fa = (case objects (the_analysis fa) of Def xs \<Rightarrow> xs | _ \<Rightarrow> [])"

definition frame_people_details :: "frame_analysis \<Rightarrow> json list" where
  "frame_people_details fa =
     (case people (the_analysis fa) of
        Def p \<Rightarrow> (case people_details p of Def ds \<Rightarrow> ds | _ \<Rightarrow> [])
      | _ \<Rightarrow> [])"

text \<open>
  \<open>if (analysis.location) allLocations.push(analysis.location.type ||
  analysis.location.description)\<close>: a non-empty type, else the description as it is.
\<close>

definition frame_location :: "frame_analysis \<Rightarrow> string opt list" where
  "frame_location fa =
     (case location (the_analysis fa) of
        Def l \<Rightarrow>
          [case location_type l of
             Def t \<Rightarrow> if t \<noteq> [] then Def t else location_description l
           | _ \<Rightarrow> location_description l]
      | _ \<Rightarrow> [])"

definition allLocations :: "frame_analysis list \<Rightarrow> string opt list" where
  "allLocations frameAnalyses = concat (map frame_location frameAnalyses)"

text \<open>The property key a location value is stored under.\<close>

fun key_of :: "string opt \<Rightarrow> string" where
  "key_of (Def s) = s"
| "key_of Null = ''null''"
| "key_of Undefined = ''undefined''"

text \<open>
  The frequency table is a plain object \<open>{}\<close>: its own properties in the order of
  insertion, and behind them the properties of \<open>Object.prototype\<close>. A tally is a
  number or, once an inherited property has been read, a string.
\<close>

datatype tally = Count nat | Text string

text \<open>
  The methods of \<open>Object.prototype\<close> (Node). Converted to a primitive, a method
  gives its source text; \<open>constructor\<close> is the function \<open>Object\<close>. The accessor
  \<open>__proto__\<close> gives \<open>Object.prototype\<close> itself, which converts to
  \<open>[object Object]\<close>.
\<close>

definition prototype_methods :: "string list" where
  "prototype_methods =
     [''constructor'', ''__defineGetter__'', ''__defineSetter__'', ''hasOwnProperty'',
      ''__lookupGetter__'', ''__lookupSetter__'', ''isPrototypeOf'', ''propertyIsEnumerable'',
      ''toString'', ''valueOf'', ''toLocaleString'']"

definition inherited_text :: "string \<Rightarrow> string option" where
  "inherited_text k =
     (if k = ''constructor'' then Some ''function Object() { [native code] }''
      else if k \<in> set prototype_methods then Some (''function '' @ k @ ''() { [native code] }'')
      else if k = ''__proto__'' then Some ''[object Object]''
      else None)"

text \<open>
  \<open>locationFrequency[k]\<close> read: the own property, else the inherited one (an object,
  kept as the string it converts to), else \<open>undefined\<close>.
\<close>

definition tally_read :: "(string \<times> tally) list \<Rightarrow> string \<Rightarrow> tally option" where
  "tally_read t k =
     (case map_of t k of
        Some v \<Rightarrow> Some v
      | None \<Rightarrow> map_option Text (inherited_text k))"

text \<open>
  \<open>(v || 0) + 1\<close>: \<open>undefined\<close>, 0 and the empty string are falsy; a number is
  incremented, and \<open>+\<close> with a string or an object concatenates.
\<close>

fun plus_one :: "tally option \<Rightarrow> tally" where
  "plus_one None = Count 1"
| "plus_one (Some (Count n)) = Count (n + 1)"
| "plus_one (Some (Text s)) = (if s = [] then Count 1 else Text (s @ ''1''))"

text \<open>
  \<open>locationFrequency[k] = v\<close>: an own property is overwritten in place, a new one is
  added last. Assigning to \<open>__proto__\<close> calls the inherited setter, which ignores a
  number or a string, so that no own property appears.
\<close>

fun own_write :: "(string \<times> tally) list \<Rightarrow> string \<Rightarrow> tally \<Rightarrow> (string \<times> tally) list" where
  "own_write [] k v = [(k, v)]"
| "own_write ((k', v') # t) k v = (if k = k' then (k', v) # t else (k', v') # own_write t k v)"

definition tally_add :: "(string \<times> tally) list \<Rightarrow> string \<Rightarrow> (string \<times> tally) list" where
  "tally_add t k =
     (if k = ''__proto__'' then t else own_write t k (plus_one (tally_read t k)))"

definition locationFrequency :: "string opt list \<Rightarrow> (string \<times> tally) list" where
  "locationFrequency locs = foldl tally_add [] (map key_of locs)"

text \<open>
  \<open>Object.keys\<close>: the keys that are array indices (canonical decimal numerals below
  \<open>2^32 - 1\<close>) come first, in ascending numeric order, then the other keys in the
  order of insertion.
\<close>

definition is_array_index :: "string \<Rightarrow> bool" where
  "is_array_index k =
     (k \<noteq> [] \<and> list_all is_digit k \<and> (k = ''0'' \<or> take 1 k \<noteq> ''0'')
      \<and> digits_value k < 4294967295)"

definition Object_keys :: "(string \<times> tally) list \<Rightarrow> string list" where
  "Object_keys t =
     sort_key digits_value (filter is_array_index (map fst t))
     @ filter (\<lambda>k. \<not> is_array_index k) (map fst t)"

text \<open>\<open>s < t\<close> on strings: the order of their code units, a proper prefix first.\<close>

fun str_less :: "string \<Rightarrow> string \<Rightarrow> bool" where
  "str_less [] [] = False"
| "str_less [] (d # t) = True"
| "str_less (c # s) [] = False"
| "str_less (c # s) (d # t) =
     ((of_char c :: nat) < of_char d \<or> (c = d \<and> str_less s t))"

text \<open>
  \<open>x > y\<close> on two tallies: two numbers by value, two strings by code units; a
  number against a string compares the number with \<open>NaN\<close> (a string tally begins
  with \<open>function\<close> or \<open>[object\<close>), and \<open>undefined\<close> is \<open>NaN\<close> too: false.
\<close>

fun tally_gt :: "tally option \<Rightarrow> tally option \<Rightarrow> bool" where
  "tally_gt (Some (Count x)) (Some (Count y)) = (y < x)"
| "tally_gt (Some (Text s)) (Some (Text u)) = str_less u s"
| "tally_gt (Some (Count x)) (Some (Text u)) = False"
| "tally_gt (Some (Text s)) (Some (Count y)) = False"
| "tally_gt None y = False"
| "tally_gt x None = False"

text \<open>The reducer \<open>(a, b) => locationFrequency[a] > locationFrequency[b] ? a : b\<close>.\<close>

definition more_frequent :: "(string \<times> tally) list \<Rightarrow> string \<Rightarrow> string \<Rightarrow> string" where
  "more_frequent t a b = (if tally_gt (tally_read t a) (tally_read t b) then a else b)"

definition mostCommonLocation :: "string opt list \<Rightarrow> string" where
  "mostCommonLocation locs =
     (let t = locationFrequency locs
      in foldl (more_frequent t) ''unknown'' (Object_keys t))"

record people_stats =
  stat_min :: jsnum
  stat_max :: jsnum
  stat_average :: jsnum

datatype locations_summary =
    NoLocations
  | Locations "string opt list" string

record aggregated =
  peopleCount :: people_stats
  agg_activities :: "string list"
  agg_locations :: locations_summary
  commonObjects :: "string list"
  peopleDetails :: "json list option"

text \<open>
  \<open>aggregateFrameAnalyses(frameAnalyses)\<close>. The empty case returns \<open>locations: []\<close>
  and no \<open>peopleDetails\<close> field.
\<close>

definition aggregateFrameAnalyses :: "frame_analysis list \<Rightarrow> aggregated" where
  "aggregateFrameAnalyses frameAnalyses =
     (if frameAnalyses = [] then
        \<lparr> peopleCount = \<lparr> stat_min = Fin 0, stat_max = Fin 0, stat_average = Fin 0 \<rparr>,
          agg_activities = [], agg_locations = NoLocations, commonObjects = [],
          peopleDetails = None \<rparr>
      else
        (let counts = map to_number (peopleCounts frameAnalyses);
             locs = allLocations frameAnalyses
         in \<lparr> peopleCount =
                \<lparr> stat_min = Math_min counts,
                  stat_max = Math_max counts,
                  stat_average =
                    js_div (foldl js_add (Fin 0) counts) (Fin (of_nat (length counts))) \<rparr>,
              agg_activities = foldl set_add [] (concat (map frame_activities frameAnalyses)),
              agg_locations = Locations (foldl set_add [] locs) (mostCommonLocation locs),
              commonObjects = foldl set_add [] (concat (map frame_objects frameAnalyses)),
              peopleDetails = Some (concat (map frame_people_details frameAnalyses)) \<rparr>))"

section \<open>Video content analysis (videoUtils.js, extractFrames and analyzeVideoContent)\<close>

text \<open>
  The collaborators of the video pipeline: \<open>ffprobe\<close> answers the two duration
  candidates of a video or fails; \<open>grab_frame\<close> answers one frame grab (video,
  timestamp, frame path) with the error it fails with, if any; \<open>read_image\<close> and
  \<open>stat_image\<close> read a frame file; \<open>vision\<close> is the completion call for the frame
  of a given index, prompt and image; \<open>parse_analysis\<close> is \<open>JSON.parse\<close> on a frame
  answer, read at the schema's type (\<open>None\<close> when it throws); \<open>summary_chat\<close> and
  \<open>parse_summary\<close> are the same for the summary call. The temporary frame directory
  and its removal in the \<open>finally\<close> block are not modelled.
\<close>

record 's video_env =
  v_client_cached :: bool
  v_api_key :: "string option"
  ffprobe :: "string \<Rightarrow> exn + (jsnum \<times> jsnum)"
  grab_frame :: "string \<Rightarrow> jsnum \<Rightarrow> string \<Rightarrow> exn option"
  frames_dir :: string
  read_image :: "string \<Rightarrow> exn + string"
  stat_image :: "string \<Rightarrow> exn + nat"
  vision :: "nat \<Rightarrow> string \<Rightarrow> string \<Rightarrow> exn + chat_response"
  parse_analysis :: "string \<Rightarrow> frame_json opt option"
  summary_chat :: "frame_analysis list \<Rightarrow> exn + chat_response"
  parse_summary :: "string \<Rightarrow> 's option"
  frame_prompt :: string

text \<open>
  \<open>extractFrames\<close>: the probe, the sampling loop, and \<open>Promise.all\<close> over the
  grabs, which rejects when a grab fails.
\<close>

definition first_grab_error ::
  "'s video_env \<Rightarrow> string \<Rightarrow> string \<Rightarrow> (nat \<times> jsnum) list \<Rightarrow> exn option" where
  "first_grab_error venv videoPath outputDir pts =
     (case List.map_filter (\<lambda>pt. grab_frame venv videoPath (snd pt) (frame_name outputDir pt)) pts of
        [] \<Rightarrow> None
      | e # es \<Rightarrow> Some e)"

definition extractFrames ::
  "'s video_env \<Rightarrow> string \<Rightarrow> string \<Rightarrow> rat \<Rightarrow> int \<Rightarrow> exn + string list" where
  "extractFrames venv videoPath outputDir intervalSeconds maxFrames =
     (case ffprobe venv videoPath of
        Inl e \<Rightarrow> Inl e
      | Inr (formatDuration, streamDuration) \<Rightarrow>
          (let videoDuration = resolve_duration formatDuration streamDuration;
               pts = frame_points videoDuration intervalSeconds maxFrames
           in case first_grab_error venv videoPath outputDir pts of
                Some e \<Rightarrow> Inl e
              | None \<Rightarrow> Inr (map (frame_name outputDir) pts)))"

text \<open>
  The \<open>try\<close> block of the per-frame loop: read the image, call the vision model,
  parse the first choice, read the usage counters.
\<close>

definition analyze_frame_try ::
  "'s video_env \<Rightarrow> string \<Rightarrow> rat \<Rightarrow> nat \<Rightarrow> string \<Rightarrow> exn + frame_analysis" where
  "analyze_frame_try venv prompt intervalSeconds i framePath =
     (case read_image venv framePath of
        Inl e \<Rightarrow> Inl e
      | Inr base64Image \<Rightarrow>
          (case stat_image venv framePath of
             Inl e \<Rightarrow> Inl e
           | Inr imageSize \<Rightarrow>
               (case vision venv i prompt base64Image of
                  Inl e \<Rightarrow> Inl e
                | Inr response \<Rightarrow>
                    (case choices response of
                       [] \<Rightarrow> Inl (TypeError ''Cannot read properties of undefined'')
                     | c # cs \<Rightarrow>
                         (case parse_analysis venv (case c of None \<Rightarrow> ''null'' | Some s \<Rightarrow> s) of
                            None \<Rightarrow> Inl (SyntaxError ''Unexpected token'')
                          | Some a \<Rightarrow>
                              (case usage response of
                                 None \<Rightarrow> Inl (TypeError ''Cannot read properties of undefined'')
                               | Some us \<Rightarrow>
                                   Inr \<lparr> frameIndex = i,
                                          frame_timestamp =
                                            js_mul (Fin (of_nat i)) (Fin intervalSeconds),
                                          analysis = a, frame_usage = us \<rparr>))))))"

text \<open>
  The loop over the frames: a frame whose \<open>try\<close> block throws is logged and left
  out, and the loop goes on with the next index.
\<close>

fun analyze_frames ::
  "'s video_env \<Rightarrow> string \<Rightarrow> rat \<Rightarrow> nat \<Rightarrow> string list \<Rightarrow> frame_analysis list" where
  "analyze_frames venv prompt intervalSeconds i [] = []"
| "analyze_frames venv prompt intervalSeconds i (framePath # rest) =
     (case analyze_frame_try venv prompt intervalSeconds i framePath of
        Inl frameError \<Rightarrow> analyze_frames venv prompt intervalSeconds (Suc i) rest
      | Inr fa \<Rightarrow> fa # analyze_frames venv prompt intervalSeconds (Suc i) rest)"

definition add_usage :: "token_usage \<Rightarrow> token_usage \<Rightarrow> token_usage" where
  "add_usage a b =
     \<lparr> promptTokens = promptTokens a + promptTokens b,
       completionTokens = completionTokens a + completionTokens b,
       totalTokens = totalTokens a + totalTokens b \<rparr>"

text \<open>
  The summary call and its \<open>catch\<close>: \<open>videoSummary\<close> is assigned before the usage
  counters are read, so it survives a missing \<open>usage\<close>.
\<close>

definition video_summary :: "'s video_env \<Rightarrow> frame_analysis list \<Rightarrow> 's option \<times> token_usage" where
  "video_summary venv fas =
     (case summary_chat venv fas of
        Inl e \<Rightarrow> (None, zero_usage)
      | Inr response \<Rightarrow>
          (case choices response of
             [] \<Rightarrow> (None, zero_usage)
           | c # cs \<Rightarrow>
               (case parse_summary venv (case c of None \<Rightarrow> ''null'' | Some s \<Rightarrow> s) of
                  None \<Rightarrow> (None, zero_usage)
                | Some v \<Rightarrow>
                    (case usage response of
                       None \<Rightarrow> (Some v, zero_usage)
                     | Some us \<Rightarrow> (Some v, us)))))"

record 's video_result =
  video_summary_of :: "'s option"
  frameAnalyses :: "frame_analysis list"
  aggregatedAnalysis :: aggregated
  framesAnalyzed :: nat
  usage_frames :: token_usage
  usage_summary :: token_usage
  usage_total :: token_usage

definition analyzeVideoContent ::
  "'s video_env \<Rightarrow> string \<Rightarrow> rat \<Rightarrow> int \<Rightarrow> string option \<Rightarrow> exn + 's video_result" where
  "analyzeVideoContent venv videoPath intervalSeconds maxFrames customPrompt =
     (case extractFrames venv videoPath (frames_dir venv) intervalSeconds maxFrames of
        Inl e \<Rightarrow> Inl e
      | Inr framePaths \<Rightarrow>
          (if framePaths = [] then
             Inr \<lparr> video_summary_of = None, frameAnalyses = [],
                    aggregatedAnalysis = aggregateFrameAnalyses [], framesAnalyzed = 0,
                    usage_frames = zero_usage, usage_summary = zero_usage,
                    usage_total = zero_usage \<rparr>
           else
             (let defaultPrompt = chosen_prompt customPrompt (frame_prompt venv)
              in case getOpenAIClient (v_client_cached venv) (v_api_key venv) of
                   Inl e \<Rightarrow> Inl e
                 | Inr u \<Rightarrow>
                     (let fas = analyze_frames venv defaultPrompt intervalSeconds 0 framePaths;
                          aggregatedAnalysis = aggregateFrameAnalyses fas;
                          (videoSummary, summaryTokenUsage) = video_summary venv fas;
                          framesUsage = foldl add_usage zero_usage (map frame_usage fas)
                      in Inr \<lparr> video_summary_of = videoSummary, frameAnalyses = fas,
                                aggregatedAnalysis = aggregatedAnalysis,
                                framesAnalyzed = length fas,
                                usage_frames = framesUsage,
                                usage_summary = summaryTokenUsage,
                                usage_total = add_usage framesUsage summaryTokenUsage \<rparr>))))"

definition location_keys :: "string opt list \<Rightarrow> string list" where
  "location_keys locs = Object_keys (locationFrequency locs)"

section \<open>Sample inputs\<close>

text \<open>
  A frame analysis \<open>{people: {count: cnt}, location: {type: loc}}\<close> of frame \<open>i\<close>
  (sampled every 5 seconds), where \<open>cnt\<close> and \<open>loc\<close> may be missing or \<open>null\<close>.
\<close>

definition sample_frame :: "nat \<Rightarrow> jsnum opt \<Rightarrow> string opt \<Rightarrow> frame_analysis" where
  "sample_frame i cnt loc =
     \<lparr> frameIndex = i, frame_timestamp = Fin (of_nat i * 5),
       analysis = Def \<lparr> people = Def \<lparr> people_count = cnt, people_details = Undefined \<rparr>,
                        activities = Undefined,
                        location = Def \<lparr> location_type = loc,
                                           location_description = Undefined \<rparr>,
                        objects = Undefined \<rparr>,
       frame_usage = zero_usage \<rparr>"

text \<open>
  A video pipeline on which the probe reports 12 seconds, every grab and file read
  succeeds, and the vision model answers frame 1 with text that is not JSON and every
  other frame with an empty JSON object.
\<close>

definition sample_video_env :: "unit video_env" where
  "sample_video_env =
     \<lparr> v_client_cached = False, v_api_key = Some ''sk-test'',
       ffprobe = (\<lambda>v. Inr (Fin 12, NaN)),
       grab_frame = (\<lambda>v ts p. None),
       frames_dir = ''/tmp/video-frames-1-abc'',
       read_image = (\<lambda>p. Inr ''aGVsbG8=''),
       stat_image = (\<lambda>p. Inr 5),
       vision = (\<lambda>i prompt img.
                  Inr \<lparr> choices = [Some (if i = 1 then ''I cannot help'' else ''{}'')],
                        usage = Some \<lparr> promptTokens = 10, completionTokens = 5,
                                       totalTokens = 15 \<rparr> \<rparr>),
       parse_analysis = (\<lambda>s. if s = ''{}''
                              then Some (Def \<lparr> people = Undefined, activities = Undefined,
                                                 location = Undefined, objects = Undefined \<rparr>)
                              else None),
       summary_chat = (\<lambda>fas. Inl (ProviderError ''rate limit'')),
       parse_summary = (\<lambda>s. None),
       frame_prompt = ''Analyze this video frame'' \<rparr>"

text \<open>
  A request environment: the server answers the download with 5,000,000 bytes of
  \<open>video/mp4\<close>, the transcoding tool writes an audio file of 27,000,000 bytes (more
  than 25 MB, which is 26,214,400 bytes), transcription succeeds, the sentiment call
  answers with the empty JSON object and the summary call with plain text.
\<close>

definition sample_env :: env where
  "sample_env =
     \<lparr> OPENAI_API_KEY = Some ''sk-test'', client_cached = False,
       ffmpegPath = Some ''/usr/bin/ffmpeg'', os_tmpdir = ''/tmp'',
       date_now = 1700000000000, math_random36 = ''k3j9x'',
       http_get = (\<lambda>u. Completed 5000000 (Some ''video/mp4'')),
       run_extract = (\<lambda>i out. ExtractDone 27000000),
       whisper = (\<lambda>p. Inr ''hello world''),
       chat = (\<lambda>r. case r of
                 SentimentRequest t \<Rightarrow>
                   Inr \<lparr> choices = [Some ''{}''],
                         usage = Some \<lparr> promptTokens = 90, completionTokens = 10,
                                        totalTokens = 100 \<rparr> \<rparr>
               | SummaryRequest p t \<Rightarrow>
                   Inr \<lparr> choices = [Some '' A greeting. ''],
                         usage = Some \<lparr> promptTokens = 80, completionTokens = 5,
                                        totalTokens = 85 \<rparr> \<rparr>),
       JSON_parse = (\<lambda>s. if s = ''{}'' then Some (JObj []) else None),
       unlink_fails = (\<lambda>p. False), elapsed = 7,
       DEFAULT_SUMMARIZATION_PROMPT = ''Summarize the transcript.'' \<rparr>"

text \<open>
  The doubles that JavaScript writes \<open>0.1\<close> and \<open>0.30000000000000004\<close> (the value of
  \<open>0.1 + 0.2\<close>).
\<close>

definition double_0_1 :: rat where
  "double_0_1 = 3602879701896397 / 2 ^ 55"

definition double_0_3 :: rat where
  "double_0_3 = 1351079888211149 / 2 ^ 52"

definition sample_request :: "request_body option" where
  "sample_request =
     Some \<lparr> url = UrlString ''https://example.org/talk.mp3'', summarizationPrompt = None \<rparr>"

definition empty_world :: world where
  "empty_world = \<lparr> files = (\<lambda>p. None), effects = [] \<rparr>"

text \<open>The same environment with a server that answers with an empty \<open>audio/mpeg\<close> file.\<close>

definition empty_audio_env :: env where
  "empty_audio_env = sample_env\<lparr> http_get := (\<lambda>u. Completed 0 (Some ''audio/mpeg'')) \<rparr>"

section \<open>Properties of the classifier\<close>

lemma str_includes_Nil [simp]: "str_includes s []"
  by (cases s) simp_all

lemma normalized_match:
  "(case normalizeContentType ct of None \<Rightarrow> False
    | Some c \<Rightarrow> list_ex (\<lambda>ty. str_includes c ty) pats) = matches_mime pats ct"
  if "[] \<notin> set pats"
proof (cases ct)
  case None
  then show ?thesis by (simp add: normalizeContentType_def matches_mime_def)
next
  case (Some c)
  show ?thesis
  proof (cases "c = []")
    case True
    with Some that show ?thesis
      by (auto simp: normalizeContentType_def matches_mime_def toLowerCase_def list_ex_iff)
  next
    case False
    with Some show ?thesis by (simp add: normalizeContentType_def matches_mime_def)
  qed
qed

lemma audio_only_extension_in:
  "(toLowerCase (extname p) \<in> set audioOnlyExtensions) =
   extension_in [''mp3'', ''wav'', ''m4a'', ''flac'', ''aac'', ''ogg'', ''mpga''] p"
  by (auto simp: audioOnlyExtensions_def extension_in_def)

lemma ambiguous_extension_in:
  "(toLowerCase (extname p) \<in> set ambiguousExtensions) =
   extension_in [''mp4'', ''mpeg'', ''webm''] p"
  by (auto simp: ambiguousExtensions_def extension_in_def)

lemma isAudioFile_classify:
  "isAudioFile p ct = (classify_spec p ct = AudioOnly)"
proof -
  have v: "[] \<notin> set videoMimeTypes" by (simp add: videoMimeTypes_def)
  have a: "[] \<notin> set audioMimeTypes" by (simp add: audioMimeTypes_def)
  show ?thesis
    unfolding isAudioFile_def classify_spec_def Let_def
      normalized_match [OF v] normalized_match [OF a]
      audio_only_extension_in ambiguous_extension_in
    by simp
qed

text \<open>
  Claim C2. For every file path and content type, \<open>isAudioFile\<close> answers by the
  five-step precedence of the specification: a video MIME match gives NeedsExtraction
  whatever the extension; otherwise an audio MIME match gives AudioOnly; otherwise an
  extension among mp3, wav, m4a, flac, aac, ogg, mpga gives AudioOnly; otherwise an
  extension among mp4, mpeg, webm gives NeedsExtraction; otherwise NeedsExtraction.
\<close>

theorem isAudioFile_precedence:
  "isAudioFile p ct = (classify_spec p ct = AudioOnly)"
  by (rule isAudioFile_classify)

theorem isAudioFile_precedence_witness:
  "isAudioFile ''/tmp/clip.MP3'' (Some ''Video/MP4; codecs=avc1'') = False
   \<and> classify_spec ''/tmp/clip.MP3'' (Some ''Video/MP4; codecs=avc1'') = NeedsExtraction
   \<and> classify_spec ''/tmp/clip.webm'' (Some ''audio/mpeg'') = AudioOnly
   \<and> isAudioFile ''/tmp/clip.webm'' (Some ''audio/mpeg'') = True"
proof -
  have 1: "classify_spec ''/tmp/clip.MP3'' (Some ''Video/MP4; codecs=avc1'') = NeedsExtraction"
    by code_simp
  have 2: "classify_spec ''/tmp/clip.webm'' (Some ''audio/mpeg'') = AudioOnly"
    by code_simp
  show ?thesis
    using isAudioFile_precedence [of "''/tmp/clip.MP3''" "Some ''Video/MP4; codecs=avc1''"]
      isAudioFile_precedence [of "''/tmp/clip.webm''" "Some ''audio/mpeg''"] 1 2
    by simp
qed

section \<open>Rounding to doubles\<close>

lemma log2_nat_bounds: "0 < n \<Longrightarrow> 2 ^ log2_nat n \<le> n \<and> n < 2 ^ Suc (log2_nat n)"
proof (induction n rule: log2_nat.induct)
  case (1 n)
  show ?case
  proof (cases "n < 2")
    case True
    with 1(2) show ?thesis by (simp add: log2_nat.simps [of n])
  next
    case False
    then have "0 < n div 2" by simp
    with 1(1) False have ih: "2 ^ log2_nat (n div 2) \<le> n div 2"
      "n div 2 < 2 ^ Suc (log2_nat (n div 2))" by simp_all
    have l: "log2_nat n = Suc (log2_nat (n div 2))" using False by (simp add: log2_nat.simps [of n])
    from ih show ?thesis unfolding l by auto
  qed
qed

lemma binade_bounds:
  assumes "0 < x"
  shows "2 powi binade x \<le> x \<and> x < 2 powi (binade x + 1)"
proof -
  obtain p q where pq: "quotient_of x = (p, q)" by (cases "quotient_of x")
  then have q: "0 < q" and x: "x = of_int p / of_int q"
    using quotient_of_denom_pos quotient_of_div by auto
  with assms have p: "0 < p" by (simp add: zero_less_divide_iff)
  define a where "a = log2_nat (nat p)"
  define b where "b = log2_nat (nat q)"
  from log2_nat_bounds [of "nat p"] p have pa: "2 ^ a \<le> nat p" "nat p < 2 ^ Suc a"
    by (simp_all add: a_def)
  from log2_nat_bounds [of "nat q"] q have qb: "2 ^ b \<le> nat q" "nat q < 2 ^ Suc b"
    by (simp_all add: b_def)
  have pr: "(2::rat) ^ a \<le> of_int p" "of_int p < (2::rat) ^ Suc a"
  proof -
    have "of_nat (2 ^ a) \<le> (of_nat (nat p) :: rat)" using pa(1) by (simp only: of_nat_le_iff)
    then show "(2::rat) ^ a \<le> of_int p" using p by simp
    have "of_nat (nat p) < (of_nat (2 ^ Suc a) :: rat)" using pa(2) by (simp only: of_nat_less_iff)
    then show "of_int p < (2::rat) ^ Suc a" using p by simp
  qed
  have qr: "(2::rat) ^ b \<le> of_int q" "of_int q < (2::rat) ^ Suc b"
  proof -
    have "of_nat (2 ^ b) \<le> (of_nat (nat q) :: rat)" using qb(1) by (simp only: of_nat_le_iff)
    then show "(2::rat) ^ b \<le> of_int q" using q by simp
    have "of_nat (nat q) < (of_nat (2 ^ Suc b) :: rat)" using qb(2) by (simp only: of_nat_less_iff)
    then show "of_int q < (2::rat) ^ Suc b" using q by simp
  qed
  define d where "d = int a - int b"
  have qpos: "(0::rat) < of_int q" using q by simp
  have up: "x < 2 powi (d + 1)"
  proof -
    have "x * 2 ^ b \<le> x * of_int q" using qr(1) assms by simp
    also have "\<dots> = of_int p" using x qpos by simp
    also have "\<dots> < 2 ^ Suc a" by (rule pr(2))
    finally have "x < 2 ^ Suc a / 2 ^ b" by (simp add: pos_less_divide_eq)
    also have "\<dots> = 2 powi int (Suc a) / 2 powi int b" by (simp only: power_int_of_nat)
    also have "\<dots> = 2 powi (int (Suc a) - int b)" by (subst power_int_diff) simp_all
    also have "int (Suc a) - int b = d + 1" by (simp add: d_def)
    finally show ?thesis .
  qed
  have lo: "2 powi (d - 1) < x"
  proof -
    have "(2::rat) ^ a \<le> of_int p" by (rule pr(1))
    also have "\<dots> = x * of_int q" using x qpos by simp
    also have "\<dots> < x * 2 ^ Suc b" using qr(2) assms by simp
    finally have l: "(2::rat) ^ a / 2 ^ Suc b < x" by (simp add: pos_divide_less_eq)
    have "(2::rat) ^ a / 2 ^ Suc b = 2 powi int a / 2 powi int (Suc b)"
      by (simp only: power_int_of_nat)
    also have "\<dots> = 2 powi (int a - int (Suc b))"
      by (subst power_int_diff) simp_all
    also have "int a - int (Suc b) = d - 1" by (simp add: d_def)
    finally show ?thesis using l by (simp only:)
  qed
  have b: "binade x = (if 2 powi d \<le> x then d else d - 1)"
    by (simp add: binade_def pq Let_def a_def b_def d_def)
  show ?thesis
  proof (cases "2 powi d \<le> x")
    case True
    with b up show ?thesis by simp
  next
    case False
    with b lo show ?thesis by simp
  qed
qed

lemma binade_unique:
  assumes "0 < x" "2 powi e \<le> x" "x < 2 powi (e + 1)"
  shows "binade x = e"
proof -
  from binade_bounds [OF assms(1)]
  have b: "2 powi binade x \<le> x" "x < 2 powi (binade x + 1)" by simp_all
  have "(2::rat) powi e < 2 powi (binade x + 1)" using assms(2) b(2) by simp
  then have 1: "e < binade x + 1"
    using power_int_increasing [of "binade x + 1" e "2::rat"] by (cases "e < binade x + 1") auto
  have "(2::rat) powi binade x < 2 powi (e + 1)" using assms(3) b(1) by simp
  then have 2: "binade x < e + 1"
    using power_int_increasing [of "e + 1" "binade x" "2::rat"] by (cases "binade x < e + 1") auto
  from 1 2 show ?thesis by simp
qed


lemma round_even_of_int: "round_even (of_int k) = k"
  by (simp add: round_even_def)

lemma round_even_lower: "of_int N \<le> y \<Longrightarrow> N \<le> round_even y"
proof -
  assume "of_int N \<le> y"
  then have "N \<le> \<lfloor>y\<rfloor>" by (simp add: le_floor_iff)
  then show ?thesis by (simp add: round_even_def Let_def)
qed

lemma round_even_upper: "y \<le> of_int N \<Longrightarrow> round_even y \<le> N"
proof -
  assume a: "y \<le> of_int N"
  then have f: "\<lfloor>y\<rfloor> \<le> N" by (simp add: floor_le_iff)
  show ?thesis
  proof (cases "y = of_int \<lfloor>y\<rfloor>")
    case True
    then have "y - of_int \<lfloor>y\<rfloor> = 0" by simp
    then show ?thesis using f by (simp add: round_even_def Let_def)
  next
    case False
    then have "of_int \<lfloor>y\<rfloor> < y" using of_int_floor_le [of y] by linarith
    with a have "of_int \<lfloor>y\<rfloor> < (of_int N :: rat)" by linarith
    then have "\<lfloor>y\<rfloor> < N" by (simp only: of_int_less_iff)
    then show ?thesis by (simp add: round_even_def Let_def)
  qed
qed

lemma round_even_above_half: "of_int N + 1 / 2 < y \<Longrightarrow> N + 1 \<le> round_even y"
proof -
  assume a: "of_int N + 1 / 2 < y"
  then have "of_int N \<le> y" by linarith
  then have f: "N \<le> \<lfloor>y\<rfloor>" by (simp add: le_floor_iff)
  show ?thesis
  proof (cases "N = \<lfloor>y\<rfloor>")
    case True
    with a have "1 / 2 < y - of_int \<lfloor>y\<rfloor>" by linarith
    then show ?thesis using True by (simp add: round_even_def Let_def)
  next
    case False
    with f have "N + 1 \<le> \<lfloor>y\<rfloor>" by linarith
    then show ?thesis by (simp add: round_even_def Let_def)
  qed
qed

lemma round_even_nearest:
  assumes "of_int m - 1 / 2 < y" "y < of_int m + 1 / 2"
  shows "round_even y = m"
proof -
  have "round_even y \<le> m"
  proof (rule ccontr)
    assume "\<not> round_even y \<le> m"
    then have m: "m + 1 \<le> round_even y" by linarith
    have fl: "of_int \<lfloor>y\<rfloor> \<le> y" "y < of_int \<lfloor>y\<rfloor> + 1" by linarith+
    from assms(2) have "y < of_int (m + 1)" by simp
    then have f: "\<lfloor>y\<rfloor> \<le> m" by (simp add: floor_less_iff [symmetric] del: of_int_add) 
    show False
    proof (cases "\<lfloor>y\<rfloor> = m")
      case True
      with assms(2) have "y - of_int \<lfloor>y\<rfloor> < 1 / 2" by linarith
      then have "round_even y = m" using True by (simp add: round_even_def Let_def)
      with m show False by simp
    next
      case False
      with f have "\<lfloor>y\<rfloor> + 1 \<le> m" by linarith
      moreover have "round_even y \<le> \<lfloor>y\<rfloor> + 1" by (simp add: round_even_def Let_def)
      ultimately show False using m by linarith
    qed
  qed
  moreover have "m \<le> round_even y"
  proof (cases "of_int m \<le> y")
    case True
    then show ?thesis by (rule round_even_lower)
  next
    case False
    then have "of_int (m - 1) + 1 / 2 < y" using assms(1) by simp
    from round_even_above_half [OF this] show ?thesis by simp
  qed
  ultimately show ?thesis by simp
qed

lemma round_even_tie: "round_even (of_int f + 1 / 2) = (if even f then f else f + 1)"
proof -
  have "\<lfloor>of_int f + (1 / 2 :: rat)\<rfloor> = f" by (simp add: floor_unique)
  then show ?thesis by (simp add: round_even_def Let_def)
qed

lemma round_even_nonneg: "0 \<le> y \<Longrightarrow> 0 \<le> round_even y"
  using round_even_lower [of 0 y] by simp


lemma fl_pos:
  assumes "0 < x"
  shows "fl x = (if overflow_bound \<le> of_int (round_even (x / 2 powi (max (binade x) (- 1022) - 52)))
                       * 2 powi (max (binade x) (- 1022) - 52)
                 then PosInf
                 else Fin (of_int (round_even (x / 2 powi (max (binade x) (- 1022) - 52)))
                       * 2 powi (max (binade x) (- 1022) - 52)))"
  using assms by (simp add: fl_def Let_def)

lemma pow2_less_exp:
  assumes "(2::rat) powi a < 2 powi b"
  shows "a < b"
  using assms power_int_increasing [of b a "2::rat"] by (cases "a < b") auto

lemma pow2_split: "(2::rat) powi (a + int n) = 2 powi a * 2 ^ n"
  by (subst power_int_add) simp_all

lemma fl_exact:
  assumes n: "n < 2 ^ 53" and t: "- 1074 \<le> t" and b: "of_nat n * 2 powi t < overflow_bound"
  shows "fl (of_nat n * 2 powi t) = Fin (of_nat n * 2 powi t)"
proof (cases "n = 0")
  case True
  then show ?thesis by (simp add: fl_def)
next
  case False
  define x :: rat where "x = of_nat n * 2 powi t"
  have p2: "(0::rat) < 2 powi k" for k by (simp add: zero_less_power_int)
  have x: "0 < x" using False p2 [of t] by (simp add: x_def)
  define e where "e = max (binade x) (- 1022)"
  from binade_bounds [OF x] have "2 powi binade x \<le> x" by simp
  also have "x < 2 ^ 53 * 2 powi t"
  proof -
    have "(of_nat n :: rat) < of_nat (2 ^ 53)" using n by (simp only: of_nat_less_iff)
    then have "(of_nat n :: rat) < 2 ^ 53" by simp
    then show ?thesis unfolding x_def using p2 [of t] by (simp only: mult_strict_right_mono)
  qed
  also have "(2::rat) ^ 53 * 2 powi t = 2 powi (53 + t)"
    by (subst power_int_add) simp_all
  finally have "binade x < 53 + t" by (rule pow2_less_exp)
  with t have e: "e - 52 \<le> t" by (simp add: e_def)
  define j where "j = nat (t - (e - 52))"
  have tj: "t = (e - 52) + int j" using e by (simp add: j_def)
  have pt: "(2::rat) powi t = 2 powi (e - 52) * 2 ^ j"
    by (subst tj, subst power_int_add) simp_all
  have q: "x / 2 powi (e - 52) = of_int (int n * 2 ^ j)"
    using p2 [of "e - 52"] by (simp add: x_def pt)
  have r: "round_even (x / 2 powi (e - 52)) = int n * 2 ^ j"
    unfolding q by (rule round_even_of_int)
  have y: "of_int (round_even (x / 2 powi (e - 52))) * 2 powi (e - 52) = x"
    unfolding r by (simp add: x_def pt)
  have "fl x = Fin x"
    using b unfolding fl_pos [OF x] e_def [symmetric] y x_def [symmetric] by simp
  then show ?thesis by (simp only: x_def)
qed

lemma fl_nat: "n < 2 ^ 53 \<Longrightarrow> fl (of_nat n) = Fin (of_nat n)"
proof -
  assume n: "n < 2 ^ 53"
  then have "(of_nat n :: rat) < of_nat (2 ^ 53)" by (simp only: of_nat_less_iff)
  then have "(of_nat n :: rat) * 2 powi 0 < overflow_bound" by (simp add: overflow_bound_def)
  from fl_exact [OF n _ this] show ?thesis by simp
qed

lemma fl_dyadic:
  assumes "n < 2 ^ 53" "k \<le> 1074"
  shows "fl (of_nat n / 2 ^ k) = Fin (of_nat n / 2 ^ k)"
proof -
  have p: "(2::rat) powi (- int k) = 1 / 2 ^ k" by (simp add: power_int_minus_divide)
  have "(of_nat n :: rat) < of_nat (2 ^ 53)" using assms(1) by (simp only: of_nat_less_iff)
  then have "(of_nat n :: rat) < 2 ^ 53" by simp
  moreover have "(of_nat n :: rat) / 2 ^ k \<le> of_nat n"
    using mult_left_mono [of 1 "2 ^ k" "of_nat n :: rat"] by (simp add: pos_divide_le_eq)
  ultimately have "(of_nat n :: rat) * 2 powi (- int k) < overflow_bound"
    unfolding p by (simp add: overflow_bound_def)
  from fl_exact [OF assms(1) _ this] assms(2) show ?thesis by (simp add: p)
qed


lemma pow2_le_bound: "j \<le> 1023 \<Longrightarrow> (2::rat) powi j < overflow_bound"
proof -
  assume "j \<le> 1023"
  then have "(2::rat) powi j \<le> 2 powi 1023" by (intro power_int_increasing) simp_all
  also have "\<dots> < overflow_bound" by (simp add: overflow_bound_def)
  finally show ?thesis .
qed

lemma fl_finite:
  assumes x: "0 < x" and j: "x \<le> 2 powi j" "- 1022 \<le> j" "j \<le> 1023"
  shows "\<exists>y. fl x = Fin y \<and> 0 \<le> y \<and> y \<le> 2 powi j"
proof -
  have p2: "(0::rat) < 2 powi k" for k by (simp add: zero_less_power_int)
  define e where "e = max (binade x) (- 1022)"
  define q :: rat where "q = 2 powi (e - 52)"
  define m where "m = round_even (x / q)"
  have q: "0 < q" unfolding q_def by (rule p2)
  from binade_bounds [OF x] j(1) have "(2::rat) powi binade x < 2 powi (j + 1)"
    using power_int_strict_increasing [of j "j + 1" "2::rat"] by simp
  then have "binade x < j + 1" by (rule pow2_less_exp)
  with j(2) have e: "e \<le> j" by (simp add: e_def)
  define i where "i = nat (j - (e - 52))"
  have ji: "j = (e - 52) + int i" using e by (simp add: i_def)
  have pj: "(2::rat) powi j = q * 2 ^ i"
    unfolding q_def by (subst ji, subst power_int_add) simp_all
  have "x / q \<le> of_int (2 ^ i)" using j(1) q by (simp add: pj pos_divide_le_eq mult.commute)
  then have "m \<le> 2 ^ i" unfolding m_def by (rule round_even_upper)
  then have "(of_int m :: rat) \<le> of_int (2 ^ i)" by (simp only: of_int_le_iff)
  then have up: "of_int m * q \<le> 2 powi j" using q by (simp add: pj mult.commute)
  have "0 \<le> x / q" using x q by simp
  then have "0 \<le> m" unfolding m_def by (rule round_even_nonneg)
  then have lo: "0 \<le> of_int m * q" using q by simp
  from up pow2_le_bound [OF j(3)] have "\<not> overflow_bound \<le> of_int m * q" by simp
  then have "fl x = Fin (of_int m * q)"
    unfolding fl_pos [OF x] e_def [symmetric] q_def [symmetric] m_def [symmetric] by simp
  with up lo show ?thesis by blast
qed

lemma fl_nonneg:
  assumes "0 \<le> x"
  shows "fl x = PosInf \<or> (\<exists>y. fl x = Fin y \<and> 0 \<le> y)"
proof (cases "x = 0")
  case True
  then show ?thesis by (simp add: fl_def)
next
  case False
  with assms have x: "0 < x" by simp
  have p2: "(0::rat) < 2 powi k" for k by (simp add: zero_less_power_int)
  have "0 \<le> x / 2 powi (max (binade x) (- 1022) - 52)" using x p2 by simp
  then have "0 \<le> round_even (x / 2 powi (max (binade x) (- 1022) - 52))"
    by (rule round_even_nonneg)
  then have "(0::rat) \<le> of_int (round_even (x / 2 powi (max (binade x) (- 1022) - 52)))
                  * 2 powi (max (binade x) (- 1022) - 52)"
    using p2 by simp
  then show ?thesis unfolding fl_pos [OF x] by simp
qed

text \<open>Evaluation of \<open>fl\<close> at a value of the normal range whose binade is known.\<close>

lemma fl_normal:
  assumes x: "0 < x" and e: "2 powi e \<le> x" "x < 2 powi (e + 1)" "- 1022 \<le> e" "e \<le> 1022"
  shows "fl x = Fin (of_int (round_even (x / 2 powi (e - 52))) * 2 powi (e - 52))"
proof -
  have p2: "(0::rat) < 2 powi k" for k by (simp add: zero_less_power_int)
  have b: "binade x = e" using x e(1,2) by (rule binade_unique)
  have m: "max e (- 1022) = e" using e(3) by simp
  have s: "(2::rat) powi (e + 1) = 2 powi (e - 52) * 2 ^ 53"
  proof -
    have "e + 1 = (e - 52) + int 53" by simp
    then have "(2::rat) powi (e + 1) = 2 powi ((e - 52) + int 53)" by (simp only:)
    then show ?thesis by (simp only: pow2_split)
  qed
  with e(2) have "x / 2 powi (e - 52) \<le> of_int (2 ^ 53)"
    using p2 [of "e - 52"] by (simp add: pos_divide_le_eq mult.commute)
  then have "round_even (x / 2 powi (e - 52)) \<le> 2 ^ 53" by (rule round_even_upper)
  then have "(of_int (round_even (x / 2 powi (e - 52))) :: rat) \<le> of_int (2 ^ 53)"
    by (simp only: of_int_le_iff)
  then have "(of_int (round_even (x / 2 powi (e - 52))) :: rat) \<le> 2 ^ 53" by simp
  then have "of_int (round_even (x / 2 powi (e - 52))) * 2 powi (e - 52)
             \<le> (2::rat) ^ 53 * 2 powi (e - 52)"
    using p2 [of "e - 52"] by (simp only: mult_right_mono less_imp_le)
  also have "(2::rat) ^ 53 * 2 powi (e - 52) = 2 powi (e + 1)"
    by (simp only: s mult.commute)
  also have "\<dots> < overflow_bound" using e(4) by (intro pow2_le_bound) simp
  finally show ?thesis unfolding fl_pos [OF x] b m by simp
qed

text \<open>
  The quotient of two whole numbers below \<open>2^53\<close> is rounded to a double with the same
  ceiling.
\<close>

lemma ceiling_fl_quotient:
  assumes a: "0 < a" "a < 2 ^ 53" and b: "0 < b" "b < 2 ^ 53"
  shows "\<exists>y. fl (of_nat a / of_nat b) = Fin y \<and> \<lceil>y\<rceil> = \<lceil>of_nat a / of_nat b :: rat\<rceil>"
proof -
  define x :: rat where "x = of_nat a / of_nat b"
  define c where "c = \<lceil>x\<rceil>"
  have p2: "(0::rat) < 2 powi k" for k by (simp add: zero_less_power_int)
  have x: "0 < x" using a b by (simp add: x_def)
  have br: "(0::rat) < of_nat b" using b by simp
  have ar: "(of_nat a :: rat) < 2 ^ 53"
  proof -
    have "(of_nat a :: rat) < of_nat (2 ^ 53)" using a(2) by (simp only: of_nat_less_iff)
    then show ?thesis by simp
  qed
  have b1: "(1::rat) \<le> of_nat b" using b(1) by (simp add: Suc_le_eq)
  have xa: "x \<le> of_nat a"
    unfolding x_def using b1 by (simp add: pos_divide_le_eq br mult_le_cancel_left1)
  define e where "e = binade x"
  from binade_bounds [OF x] have eb: "2 powi e \<le> x" "x < 2 powi (e + 1)" by (simp_all add: e_def)
  have "(2::rat) powi e < 2 powi 53" using eb(1) xa ar by simp
  then have e53: "e < 53" by (rule pow2_less_exp)
  have "(2::rat) powi (- 53) < x"
  proof -
    have "(of_nat b :: rat) < of_nat (2 ^ 53)" using b(2) by (simp only: of_nat_less_iff)
    then have "(of_nat b :: rat) < 2 ^ 53" by simp
    then have "1 / 2 ^ 53 < 1 / (of_nat b :: rat)" using br by (simp add: frac_less2)
    also have "\<dots> \<le> x" unfolding x_def using a(1) br
      by (simp add: divide_le_cancel Suc_le_eq)
    finally show ?thesis by (simp add: power_int_minus_divide)
  qed
  with eb(2) have "(2::rat) powi (- 53) < 2 powi (e + 1)" by simp
  then have elo: "- 54 < e" using pow2_less_exp [of "- 53" "e + 1"] by simp
  have fx: "fl x = Fin (of_int (round_even (x / 2 powi (e - 52))) * 2 powi (e - 52))"
    using x eb elo e53 by (intro fl_normal) simp_all
  define i where "i = nat (52 - e)"
  define K :: rat where "K = 2 ^ i"
  have K: "0 < K" by (simp add: K_def)
  have q: "(2::rat) powi (e - 52) = 1 / K"
  proof -
    have "e - 52 = - int i" using e53 by (simp add: i_def)
    then show ?thesis by (simp add: K_def power_int_minus_divide)
  qed
  define m where "m = round_even (x * K)"
  have y: "fl x = Fin (of_int m / K)" using fx by (simp add: q m_def)
  have c: "of_int c - 1 < x" "x \<le> of_int c" unfolding c_def by linarith+
  have "x * K \<le> of_int (c * 2 ^ i)" using c(2) K by (simp add: K_def)
  then have mu: "m \<le> c * 2 ^ i" unfolding m_def by (rule round_even_upper)
  have "of_int ((c - 1) * 2 ^ i) + 1 / 2 < x * K"
  proof -
    have "of_int c - 1 < (of_nat a :: rat) / of_nat b" using c(1) by (simp add: x_def)
    then have "(of_int c - 1) * of_nat b < (of_nat a :: rat)" using br
      by (simp add: pos_less_divide_eq)
    then have "of_int ((c - 1) * int b) < (of_int (int a) :: rat)" by simp
    then have "(c - 1) * int b < int a" by (simp only: of_int_less_iff)
    then have "(c - 1) * int b + 1 \<le> int a" by simp
    then have "(of_int ((c - 1) * int b + 1) :: rat) \<le> of_int (int a)" by (simp only: of_int_le_iff)
    then have "(of_int c - 1) * of_nat b + 1 \<le> (of_nat a :: rat)" by simp
    then have "((of_int c - 1) * of_nat b + 1) / of_nat b \<le> (of_nat a :: rat) / of_nat b"
      using br by (simp only: divide_right_mono less_imp_le)
    then have d: "(of_int c - 1) + 1 / of_nat b \<le> x" using br
      by (simp add: x_def add_divide_distrib)
    have "of_nat b * 2 powi e \<le> (of_nat a :: rat)"
      using eb(1) br by (simp add: x_def pos_le_divide_eq mult.commute)
    with ar have "of_nat b * 2 powi e < (2::rat) ^ 53" by simp
    moreover have "(2::rat) powi e = 2 ^ 52 / K"
    proof -
      have "(2::rat) powi (e - 52 + int 52) = 2 powi (e - 52) * 2 ^ 52" by (rule pow2_split)
      then show ?thesis by (simp add: q)
    qed
    ultimately have "of_nat b * (2 ^ 52 / K) < (2::rat) ^ 53" by simp
    then have "of_nat b < 2 * K" using K by (simp add: pos_divide_less_eq)
    then have "1 / 2 < K / of_nat b" using br by (simp add: pos_less_divide_eq)
    moreover have "((of_int c - 1) + 1 / of_nat b) * K \<le> x * K" using d K by simp
    ultimately show ?thesis by (simp add: K_def algebra_simps)
  qed
  then have "(c - 1) * 2 ^ i + 1 \<le> m" unfolding m_def by (rule round_even_above_half)
  then have "(of_int ((c - 1) * 2 ^ i + 1) :: rat) \<le> of_int m" by (simp only: of_int_le_iff)
  then have "(of_int c - 1) * K + 1 \<le> of_int m" by (simp add: K_def)
  then have "(of_int c - 1) * K < of_int m" by simp
  then have lo: "of_int c - 1 < of_int m / K" using K by (simp add: pos_less_divide_eq)
  from mu have "(of_int m :: rat) \<le> of_int (c * 2 ^ i)" by (simp only: of_int_le_iff)
  then have "of_int m \<le> of_int c * K" by (simp add: K_def)
  then have hi: "of_int m / K \<le> of_int c" using K by (simp add: pos_divide_le_eq)
  from lo hi have "\<lceil>of_int m / K\<rceil> = c" by (simp add: ceiling_unique)
  with y show ?thesis unfolding c_def x_def by blast
qed

lemma fl_not_NaN: "fl x \<noteq> NaN"
  by (simp add: fl_def Let_def)

lemma fl_zero: "fl 0 = Fin 0"
  by (simp add: fl_def)

lemma fl_numeral: "numeral k < (2::nat) ^ 53 \<Longrightarrow> fl (numeral k) = Fin (numeral k)"
  using fl_nat [of "numeral k"] by simp

lemma fl_one: "fl 1 = Fin 1"
  using fl_nat [of 1] by simp

section \<open>Temporary paths and the classifier\<close>

lemma digit_char_is_digit: "d < 10 \<Longrightarrow> is_digit (digit_char d)"
proof -
  assume "d < 10"
  then have "d = 0 \<or> d = 1 \<or> d = 2 \<or> d = 3 \<or> d = 4 \<or> d = 5 \<or> d = 6 \<or> d = 7 \<or> d = 8 \<or> d = 9"
    by arith
  then show ?thesis by (auto simp: digit_char_def is_digit_def)
qed

lemma dec_digits: "list_all is_digit (dec n)"
proof (induction n rule: dec.induct)
  case (1 n)
  show ?case
  proof (cases "n < 10")
    case True
    then show ?thesis by (simp add: dec.simps [of n] digit_char_is_digit)
  next
    case False
    then show ?thesis using 1 by (simp add: dec.simps [of n] digit_char_is_digit)
  qed
qed

lemma digit_no_slash: "is_digit c \<Longrightarrow> c \<noteq> CHR ''/''"
  by (auto simp: is_digit_def)

lemma base36_no_slash: "is_base36 c \<Longrightarrow> c \<noteq> CHR ''/''"
  by (auto simp: is_base36_def is_digit_def)

lemma uid_no_slash:
  assumes "list_all is_base36 rnd"
  shows "CHR ''/'' \<notin> set (dec now @ ''-'' @ rnd)"
  using assms dec_digits [of now] digit_no_slash base36_no_slash
  by (auto simp: list_all_iff)

lemma extname_named:
  assumes "CHR ''/'' \<notin> set stem" and "stem \<noteq> []"
  shows "extname (dir @ ''/'' @ stem @ ''.webm'') = ''.webm''"
proof -
  let ?p = "dir @ ''/'' @ stem @ ''.webm''"
  have r: "rev ?p = (''mbew.'' @ rev stem) @ CHR ''/'' # rev dir" by simp
  have d: "dropWhile (\<lambda>c. c = CHR ''/'') (rev ?p) = rev ?p" by simp
  have "takeWhile (\<lambda>c. c \<noteq> CHR ''/'') ((''mbew.'' @ rev stem) @ CHR ''/'' # rev dir)
        = (''mbew.'' @ rev stem) @ takeWhile (\<lambda>c. c \<noteq> CHR ''/'') (CHR ''/'' # rev dir)"
    by (rule takeWhile_append2) (use assms(1) in auto)
  then have t: "takeWhile (\<lambda>c. c \<noteq> CHR ''/'') (rev ?p) = ''mbew.'' @ rev stem"
    unfolding r by simp
  have b: "last_component ?p = stem @ ''.webm''"
    unfolding last_component_def d t by simp
  have e: "rev (takeWhile (\<lambda>c. c \<noteq> CHR ''.'') (rev (stem @ ''.webm''))) = ''webm''"
    by simp
  have l: "length ''webm'' + 1 \<noteq> length (stem @ ''.webm'')" using assms(2) by simp
  have n: "stem @ ''.webm'' \<noteq> ''..''" by (cases stem) auto
  show ?thesis
    unfolding extname_def b Let_def e using l n by simp
qed

lemma extname_inputPath:
  assumes "list_all is_base36 rnd"
  shows "extname (inputPath (createTempPaths tmpdir now rnd)) = ''.webm''"
proof -
  have "CHR ''/'' \<notin> set (''input-'' @ dec now @ ''-'' @ rnd)"
    using uid_no_slash [OF assms, of now] by simp
  moreover have "''input-'' @ dec now @ ''-'' @ rnd \<noteq> []" by simp
  ultimately have "extname (tmpdir @ ''/'' @ (''input-'' @ dec now @ ''-'' @ rnd) @ ''.webm'') = ''.webm''"
    by (rule extname_named)
  then show ?thesis
    by (simp add: createTempPaths_def path_join_def Let_def)
qed

lemma header_match: "matches_mime pats (header_or_null h) = matches_mime pats h"
  if "[] \<notin> set pats"
  using that
  by (auto simp: header_or_null_def matches_mime_def toLowerCase_def list_ex_iff
      split: option.splits)

lemma isAudioFile_webm:
  assumes "extname p = ''.webm''"
  shows "isAudioFile p ct = (matches_mime audioMimeTypes ct \<and> \<not> matches_mime videoMimeTypes ct)"
proof -
  have l: "toLowerCase ''.webm'' = ''.webm''" by (simp add: toLowerCase_def lower_char_def latin1_capitals_def latin1_smalls_def)
  have "\<not> extension_in [''mp3'', ''wav'', ''m4a'', ''flac'', ''aac'', ''ogg'', ''mpga''] p"
    by (simp add: extension_in_def assms l)
  then show ?thesis
    using isAudioFile_classify [of p ct] by (auto simp: classify_spec_def split: if_splits)
qed

section \<open>File sizes in megabytes\<close>

lemma megabytes_exact: "n < 2 ^ 53 \<Longrightarrow> megabytes n = Fin (of_nat n / 2 ^ 20)"
proof -
  assume n: "n < 2 ^ 53"
  have m: "fl 1048576 = Fin 1048576" by (rule fl_numeral) simp
  have "fl (of_nat n / 2 ^ 20) = Fin (of_nat n / 2 ^ 20)" using n by (intro fl_dyadic) simp_all
  then show ?thesis using fl_nat [OF n] by (simp add: megabytes_def m)
qed

lemma megabytes_not_NaN: "megabytes n \<noteq> NaN"
proof -
  have m: "fl 1048576 = Fin 1048576" by (rule fl_numeral) simp
  from fl_nonneg [of "of_nat n"] show ?thesis
    by (auto simp: megabytes_def m fl_not_NaN)
qed

lemma megabytes_zero: "megabytes 0 = Fin 0"
  using megabytes_exact [of 0] by simp

section \<open>The transcription route\<close>

subsection \<open>Stages of the handler\<close>

lemma downloadFile_Inr:
  assumes "downloadFile env u p w = (Inr dl, w1)"
  shows "\<exists>n hdr. http_get env u = Completed n hdr \<and> contentType dl = header_or_null hdr
           \<and> effects w1 = effects w @ [Download u p] \<and> files w1 = (files w)(p := Some n)"
  using assms
  by (auto simp: downloadFile_def emit_def write_file_def split: download_outcome.splits)


lemma validateFileSize_Inr:
  assumes "validateFileSize p w = (Inr v, w2)"
  shows "\<exists>n. files w p = Some n \<and> sizeMB v = megabytes n \<and> \<not> js_gt (megabytes n) (Fin 25)
           \<and> effects w2 = effects w @ [SizeCheck p] \<and> files w2 = files w"
  using assms
  by (auto simp: validateFileSize_def emit_def Let_def split: option.splits if_splits)


lemma extract_Inr:
  assumes "extractAudioFromVideo env i out w = (Inr x, w2)"
  shows "\<exists>k. run_extract env i out = ExtractDone k \<and> outputSizeMB x = megabytes k
           \<and> effects w2 = effects w @ [Extract i out] \<and> files w2 = (files w)(out := Some k)"
  using assms
  by (auto simp: extractAudioFromVideo_def emit_def write_file_def Let_def
      split: extract_outcome.splits option.splits)


lemma prepare_audio_Inr:
  assumes "prepare_audio env a tin tout w = (Inr (sz, p), w2)"
  shows "(a \<and> p = tin
            \<and> (\<exists>n. files w tin = Some n \<and> sz = megabytes n \<and> \<not> js_gt (megabytes n) (Fin 25))
            \<and> effects w2 = effects w @ [SizeCheck tin] \<and> files w2 = files w)
         \<or> (\<not> a \<and> p = tout \<and> ffmpegPath env \<noteq> None
            \<and> (\<exists>k. run_extract env tin tout = ExtractDone k \<and> sz = megabytes k
                  \<and> files w2 = (files w)(tout := Some k))
            \<and> effects w2 = effects w @ [Extract tin tout])"
proof (cases a)
  case True
  with assms obtain v where v: "validateFileSize tin w = (Inr v, w2)" "sz = sizeMB v" "p = tin"
    by (auto simp: prepare_audio_def split: prod.splits sum.splits)
  from validateFileSize_Inr [OF v(1)] v True show ?thesis by auto
next
  case False
  with assms obtain x where x: "extractAudioFromVideo env tin tout w = (Inr x, w2)"
    "sz = outputSizeMB x" "p = tout" "ffmpegPath env \<noteq> None"
    by (auto simp: prepare_audio_def split: prod.splits sum.splits option.splits)
  from extract_Inr [OF x(1)] x False show ?thesis by auto
qed

lemma transcribeAudio_Inr:
  assumes "transcribeAudio env p w = (Inr t, w3)"
  shows "effects w3 = effects w @ [Upload p (files w p)] \<and> files w3 = files w"
  using assms by (auto simp: transcribeAudio_def emit_def split: sum.splits)


subsection \<open>Cleanup\<close>

lemma cleanupFiles_effects:
  assumes "cleanupFiles env ps w = (cs, w')"
  shows "\<exists>es. effects w' = effects w @ es
            \<and> (\<forall>e \<in> set es. \<exists>p b. e = Unlink p b)
            \<and> (\<forall>p \<in> set ps. p \<noteq> [] \<longrightarrow> files w' p = None \<or> Unlink p False \<in> set es)
            \<and> (\<forall>q. files w q = None \<longrightarrow> files w' q = None)"
  using assms
proof (induction ps arbitrary: w cs w')
  case Nil
  then show ?case by simp
next
  case (Cons p ps)
  show ?case
  proof (cases "p \<noteq> [] \<and> files w p \<noteq> None")
    case False
    with Cons.prems have "cleanupFiles env ps w = (cs, w')" by auto
    from Cons.IH [OF this] obtain es where es: "effects w' = effects w @ es"
      "\<forall>e \<in> set es. \<exists>p b. e = Unlink p b"
      "\<forall>p \<in> set ps. p \<noteq> [] \<longrightarrow> files w' p = None \<or> Unlink p False \<in> set es"
      "\<forall>q. files w q = None \<longrightarrow> files w' q = None" by blast
    with False show ?thesis by (intro exI [of _ es]) auto
  next
    case True
    show ?thesis
    proof (cases "unlink_fails env p")
      case fails: True
      obtain cs' where r: "cleanupFiles env ps (emit (Unlink p False) w) = (cs', w')"
        using Cons.prems True fails by (auto split: prod.splits)
      from Cons.IH [OF r] obtain es where es:
        "effects w' = effects (emit (Unlink p False) w) @ es"
        "\<forall>e \<in> set es. \<exists>p b. e = Unlink p b"
        "\<forall>q \<in> set ps. q \<noteq> [] \<longrightarrow> files w' q = None \<or> Unlink q False \<in> set es"
        "\<forall>q. files (emit (Unlink p False) w) q = None \<longrightarrow> files w' q = None" by blast
      then show ?thesis
        by (intro exI [of _ "Unlink p False # es"]) (auto simp: emit_def)
    next
      case ok: False
      obtain cs' where r:
        "cleanupFiles env ps (emit (Unlink p True) (remove_file p w)) = (cs', w')"
        using Cons.prems True ok by (auto split: prod.splits)
      from Cons.IH [OF r] obtain es where es:
        "effects w' = effects (emit (Unlink p True) (remove_file p w)) @ es"
        "\<forall>e \<in> set es. \<exists>p b. e = Unlink p b"
        "\<forall>q \<in> set ps. q \<noteq> [] \<longrightarrow> files w' q = None \<or> Unlink q False \<in> set es"
        "\<forall>q. files (emit (Unlink p True) (remove_file p w)) q = None \<longrightarrow> files w' q = None"
        by blast
      then show ?thesis
        by (intro exI [of _ "Unlink p True # es"]) (auto simp: emit_def remove_file_def)
    qed
  qed
qed

subsection \<open>The whole handler\<close>

lemma analyzeSentiment_total: "\<exists>r. analyzeSentiment env t = Inr r"
  by (cases "analyzeSentiment_try env t") (simp_all add: analyzeSentiment_def)

lemma generateSummary_total: "\<exists>s. generateSummary env t p = Inr s"
  by (cases "generateSummary_try env t p") (simp_all add: generateSummary_def)

lemma finish_request_result:
  "\<exists>sb cs w'. finish_request env ou pr a tin tout sz tr w = (Inr sb, w')
     \<and> cleanupFiles env (if a then [tin] else [tin, tout]) w = (cs, w')
     \<and> fileWasAudio sb = a \<and> res_url sb = ou
     \<and> estimatedDurationMinutes sb = parseFloat (estimateAudioDuration sz)"
proof -
  obtain r where r: "analyzeSentiment env (transcript tr) = Inr r"
    using analyzeSentiment_total by blast
  obtain s where s: "generateSummary env (transcript tr) pr = Inr s"
    using generateSummary_total by blast
  obtain cs w' where c: "cleanupFiles env (if a then [tin] else [tin, tout]) w = (cs, w')"
    by (cases "cleanupFiles env (if a then [tin] else [tin, tout]) w")
  show ?thesis
    unfolding finish_request_def Let_def r s using c by (simp split: prod.splits)
qed

lemma steps_success:
  assumes "transcribe_steps env ou u pr tin tout w = (Inr sb, w')"
  shows "\<exists>n hdr k w3 cs.
           http_get env u = Completed n hdr
         \<and> fileWasAudio sb = isAudioFile tin (header_or_null hdr)
         \<and> res_url sb = ou
         \<and> estimatedDurationMinutes sb = parseFloat (estimateAudioDuration (megabytes k))
         \<and> (if fileWasAudio sb
             then k = n \<and> \<not> js_gt (megabytes n) (Fin 25)
                  \<and> effects w3 = effects w @ [Download u tin, SizeCheck tin, Upload tin (Some n)]
                  \<and> files w3 = (files w)(tin := Some n)
                  \<and> cleanupFiles env [tin] w3 = (cs, w')
             else run_extract env tin tout = ExtractDone k \<and> ffmpegPath env \<noteq> None
                  \<and> effects w3 = effects w @ [Download u tin, Extract tin tout, Upload tout (Some k)]
                  \<and> files w3 = (files w)(tin := Some n, tout := Some k)
                  \<and> cleanupFiles env [tin, tout] w3 = (cs, w'))"
proof -
  obtain r1 w1 where d: "downloadFile env u tin w = (r1, w1)" by (cases "downloadFile env u tin w")
  with assms obtain dl where dl: "r1 = Inr dl"
    by (cases r1) (auto simp: transcribe_steps_def)
  from downloadFile_Inr [OF d [unfolded dl]] obtain n hdr where n:
    "http_get env u = Completed n hdr" "contentType dl = header_or_null hdr"
    "effects w1 = effects w @ [Download u tin]" "files w1 = (files w)(tin := Some n)" by blast
  let ?a = "isAudioFile tin (header_or_null hdr)"
  obtain r2 w2 where p: "prepare_audio env ?a tin tout w1 = (r2, w2)"
    by (cases "prepare_audio env ?a tin tout w1")
  with assms d dl n(2) obtain sz ap where r2: "r2 = Inr (sz, ap)"
    by (cases r2) (auto simp: transcribe_steps_def Let_def)
  obtain r3 w3 where t: "transcribeAudio env ap w2 = (r3, w3)"
    by (cases "transcribeAudio env ap w2")
  with assms d dl n(2) p r2 obtain tr where r3: "r3 = Inr tr"
    by (cases r3) (auto simp: transcribe_steps_def Let_def)
  have fin: "finish_request env ou pr ?a tin tout sz tr w3 = (Inr sb, w')"
    using assms d dl n(2) p r2 t r3 by (simp add: transcribe_steps_def Let_def)
  from finish_request_result [of env ou pr ?a tin tout sz tr w3] fin
  obtain cs where c: "cleanupFiles env (if ?a then [tin] else [tin, tout]) w3 = (cs, w')"
    and sb: "fileWasAudio sb = ?a" "res_url sb = ou"
      "estimatedDurationMinutes sb = parseFloat (estimateAudioDuration sz)"
    by auto
  from transcribeAudio_Inr [OF t [unfolded r3]]
  have up: "effects w3 = effects w2 @ [Upload ap (files w2 ap)]" "files w3 = files w2" by auto
  from prepare_audio_Inr [OF p [unfolded r2]] show ?thesis
  proof (elim disjE conjE exE)
    fix m
    assume a: "?a" "ap = tin" "files w1 tin = Some m" "sz = megabytes m"
      "\<not> js_gt (megabytes m) (Fin 25)" "effects w2 = effects w1 @ [SizeCheck tin]"
      "files w2 = files w1"
    then have "m = n" using n(4) by simp
    with a n up sb c show ?thesis
      by (intro exI [of _ n] exI [of _ hdr] exI [of _ w3] exI [of _ cs]) simp
  next
    fix k
    assume b: "\<not> ?a" "ap = tout" "ffmpegPath env \<noteq> None"
      "run_extract env tin tout = ExtractDone k" "sz = megabytes k"
      "files w2 = (files w1)(tout := Some k)" "effects w2 = effects w1 @ [Extract tin tout]"
    with n up sb c show ?thesis
      by (intro exI [of _ n] exI [of _ hdr] exI [of _ k] exI [of _ w3] exI [of _ cs]) simp
  qed
qed






lemma request_paths_distinct:
  "inputPath (request_paths env) \<noteq> outputPath (request_paths env)
   \<and> inputPath (request_paths env) \<noteq> [] \<and> outputPath (request_paths env) \<noteq> []"
  by (simp add: request_paths_def createTempPaths_def path_join_def Let_def)





subsection \<open>Runs of the handler with known outcomes of the collaborators\<close>

lemma steps_video_run:
  assumes "http_get env u = Completed n hdr"
    and "\<not> isAudioFile tin (header_or_null hdr)"
    and "ffmpegPath env = Some fp"
    and "run_extract env tin tout = ExtractDone k"
    and "getOpenAIClient (client_cached env) (OPENAI_API_KEY env) = Inr ()"
    and "whisper env tout = Inr t"
    and "tin \<noteq> tout"
  shows "\<exists>sb cs w'. transcribe_steps env ou u pr tin tout w = (Inr sb, w')
           \<and> cleanupFiles env [tin, tout]
                \<lparr> files = (files w)(tin := Some n, tout := Some k),
                  effects = effects w @ [Download u tin, Extract tin tout, Upload tout (Some k)] \<rparr>
               = (cs, w')
           \<and> \<not> fileWasAudio sb
           \<and> estimatedDurationMinutes sb = parseFloat (estimateAudioDuration (megabytes k))"
proof -
  let ?w1 = "emit (Download u tin) (write_file tin n w)"
  let ?w2 = "emit (Extract tin tout) (write_file tout k ?w1)"
  let ?w3 = "emit (Upload tout (Some k)) ?w2"
  have d: "downloadFile env u tin w
           = (Inr \<lparr> sizeBytes = n, sizeMB = megabytes n, contentType = header_or_null hdr \<rparr>, ?w1)"
    using assms(1) by (simp add: downloadFile_def)
  have x: "extractAudioFromVideo env tin tout ?w1
           = (Inr \<lparr> outputSizeBytes = k, outputSizeMB = megabytes k \<rparr>, ?w2)"
    using assms(4,7) by (simp add: extractAudioFromVideo_def emit_def write_file_def Let_def)
  have p: "prepare_audio env False tin tout ?w1 = (Inr (megabytes k, tout), ?w2)"
    using assms(3) x by (simp add: prepare_audio_def)
  have t: "transcribeAudio env tout ?w2
           = (Inr \<lparr> transcript = t, transcript_length = length t \<rparr>, ?w3)"
    using assms(5,6) by (simp add: transcribeAudio_def emit_def write_file_def)
  have w3: "?w3 = \<lparr> files = (files w)(tin := Some n, tout := Some k),
                     effects = effects w @ [Download u tin, Extract tin tout, Upload tout (Some k)] \<rparr>"
    by (simp add: emit_def write_file_def)
  have s: "transcribe_steps env ou u pr tin tout w
           = finish_request env ou pr False tin tout (megabytes k)
               \<lparr> transcript = t, transcript_length = length t \<rparr> ?w3"
    using assms(2) by (simp add: transcribe_steps_def d p t Let_def)
  from finish_request_result
    [of env ou pr False tin tout "megabytes k" "\<lparr> transcript = t, transcript_length = length t \<rparr>" ?w3]
  show ?thesis unfolding s w3 by (auto simp del: cleanupFiles.simps)
qed

lemma steps_audio_run:
  assumes "http_get env u = Completed n hdr"
    and "isAudioFile tin (header_or_null hdr)"
    and "\<not> js_gt (megabytes n) (Fin 25)"
    and "getOpenAIClient (client_cached env) (OPENAI_API_KEY env) = Inr ()"
    and "whisper env tin = Inr t"
  shows "\<exists>sb cs w'. transcribe_steps env ou u pr tin tout w = (Inr sb, w')
           \<and> cleanupFiles env [tin]
                \<lparr> files = (files w)(tin := Some n),
                  effects = effects w @ [Download u tin, SizeCheck tin, Upload tin (Some n)] \<rparr>
               = (cs, w')
           \<and> fileWasAudio sb
           \<and> estimatedDurationMinutes sb = parseFloat (estimateAudioDuration (megabytes n))"
proof -
  let ?w1 = "emit (Download u tin) (write_file tin n w)"
  let ?w2 = "emit (SizeCheck tin) ?w1"
  let ?w3 = "emit (Upload tin (Some n)) ?w2"
  have d: "downloadFile env u tin w
           = (Inr \<lparr> sizeBytes = n, sizeMB = megabytes n, contentType = header_or_null hdr \<rparr>, ?w1)"
    using assms(1) by (simp add: downloadFile_def)
  have nn: "megabytes n \<noteq> NaN" by (rule megabytes_not_NaN)
  have v: "validateFileSize tin ?w1 = (Inr \<lparr> sizeBytes = n, sizeMB = megabytes n \<rparr>, ?w2)"
    using assms(3) nn by (simp add: validateFileSize_def emit_def write_file_def Let_def)
  have p: "prepare_audio env True tin tout ?w1 = (Inr (megabytes n, tin), ?w2)"
    using v by (simp add: prepare_audio_def)
  have t: "transcribeAudio env tin ?w2
           = (Inr \<lparr> transcript = t, transcript_length = length t \<rparr>, ?w3)"
    using assms(4,5) by (simp add: transcribeAudio_def emit_def write_file_def)
  have w3: "?w3 = \<lparr> files = (files w)(tin := Some n),
                     effects = effects w @ [Download u tin, SizeCheck tin, Upload tin (Some n)] \<rparr>"
    by (simp add: emit_def write_file_def)
  have s: "transcribe_steps env ou u pr tin tout w
           = finish_request env ou pr True tin tout (megabytes n)
               \<lparr> transcript = t, transcript_length = length t \<rparr> ?w3"
    using assms(2) by (simp add: transcribe_steps_def d p t Let_def)
  from finish_request_result
    [of env ou pr True tin tout "megabytes n" "\<lparr> transcript = t, transcript_length = length t \<rparr>" ?w3]
  show ?thesis unfolding s w3 by (auto simp del: cleanupFiles.simps)
qed

lemma route_valid:
  assumes "url b = UrlString u" and "u \<noteq> []" and "OPENAI_API_KEY env = Some key" and "key \<noteq> []"
    and "transcribe_steps env (url b) u (summarizationPrompt b) (inputPath (request_paths env))
           (outputPath (request_paths env)) w = (Inr sb, w')"
  shows "transcribe_route env (Some b) w = (Response 200 (Success sb), emit (Respond 200) w')"
  using assms by (simp add: transcribe_route_def Let_def)

lemma route_success_inv:
  assumes "fst (transcribe_route env req w) = Response 200 (Success sb)"
  shows "\<exists>b u w1. req = Some b \<and> url b = UrlString u
           \<and> transcribe_steps env (url b) u (summarizationPrompt b)
                (inputPath (request_paths env)) (outputPath (request_paths env)) w = (Inr sb, w1)
           \<and> snd (transcribe_route env req w) = emit (Respond 200) w1"
proof (cases req)
  case None
  with assms show ?thesis
    by (simp add: transcribe_route_def transcribe_catch_def Let_def split: prod.splits)
next
  case (Some b)
  show ?thesis
  proof (cases "url b")
    case UrlUndefined
    with Some assms show ?thesis by (simp add: transcribe_route_def)
  next
    case UrlNotString
    with Some assms show ?thesis by (simp add: transcribe_route_def)
  next
    case (UrlString u)
    let ?tin = "inputPath (request_paths env)" and ?tout = "outputPath (request_paths env)"
    obtain r1 w1 where a:
      "transcribe_steps env (url b) u (summarizationPrompt b) ?tin ?tout w = (r1, w1)"
      by (cases "transcribe_steps env (url b) u (summarizationPrompt b) ?tin ?tout w")
    have valid: "u \<noteq> [] \<and> \<not> (case OPENAI_API_KEY env of None \<Rightarrow> True | Some k \<Rightarrow> k = [])"
      using Some UrlString assms by (auto simp: transcribe_route_def split: if_splits)
    show ?thesis
    proof (cases r1)
      case (Inl err)
      with Some UrlString valid a assms show ?thesis
        by (simp add: transcribe_route_def transcribe_catch_def Let_def split: prod.splits)
    next
      case (Inr ok)
      with Some UrlString valid a assms have "ok = sb"
        by (simp add: transcribe_route_def Let_def)
      with Some UrlString valid a Inr show ?thesis
        by (simp add: transcribe_route_def Let_def)
    qed
  qed
qed

subsection \<open>Decimal strings\<close>

lemma not_digit_point: "\<not> is_digit CHR ''.''"
  by (simp add: is_digit_def)

lemma digit_zero: "is_digit CHR ''0''"
  by (simp add: is_digit_def)

lemma digit_char_value: "d < 10 \<Longrightarrow> (of_char (digit_char d) :: nat) - 48 = d"
proof -
  assume "d < 10"
  then have "d = 0 \<or> d = 1 \<or> d = 2 \<or> d = 3 \<or> d = 4 \<or> d = 5 \<or> d = 6 \<or> d = 7 \<or> d = 8 \<or> d = 9"
    by arith
  then show ?thesis by (auto simp: digit_char_def)
qed

lemma digits_value_snoc:
  "digits_value (ds @ [c]) = digits_value ds * 10 + ((of_char c :: nat) - 48)"
  by (simp add: digits_value_def)

lemma digits_value_append:
  "digits_value (xs @ ys) = digits_value xs * 10 ^ length ys + digits_value ys"
proof (induction ys rule: rev_induct)
  case Nil
  then show ?case by (simp add: digits_value_def)
next
  case (snoc c ys)
  have "digits_value (xs @ ys @ [c]) = digits_value ((xs @ ys) @ [c])" by simp
  also have "\<dots> = digits_value (xs @ ys) * 10 + ((of_char c :: nat) - 48)"
    by (rule digits_value_snoc)
  finally show ?case by (simp add: snoc.IH digits_value_snoc algebra_simps)
qed

lemma digits_value_dec: "digits_value (dec n) = n"
proof (induction n rule: dec.induct)
  case (1 n)
  show ?case
  proof (cases "n < 10")
    case True
    then show ?thesis by (simp add: dec.simps [of n] digits_value_def digit_char_value)
  next
    case False
    then have "digits_value (dec n) = digits_value (dec (n div 10)) * 10 + n mod 10"
      by (simp add: dec.simps [of n] digits_value_snoc digit_char_value)
    with 1 False show ?thesis by simp
  qed
qed

lemma digits_value_zeros: "digits_value (replicate k CHR ''0'' @ ds) = digits_value ds"
proof -
  have "digits_value (replicate k CHR ''0'') = 0"
  proof (induction k)
    case 0
    then show ?case by (simp add: digits_value_def)
  next
    case (Suc k)
    have "replicate (Suc k) CHR ''0'' = replicate k CHR ''0'' @ ''0''"
      by (simp add: replicate_append_same)
    then show ?case using Suc by (simp only: digits_value_snoc) simp
  qed
  then show ?thesis by (simp add: digits_value_append)
qed

text \<open>
  The shape and the value of \<open>x.toFixed(2)\<close> for \<open>x \<ge> 0\<close>: digits, a point and two
  digits, which read as the number of hundredths nearest to \<open>x\<close>.
\<close>

lemma fixed2_shape:
  assumes "0 \<le> x"
  shows "\<exists>ip fp. fixed_digits 2 x = ip @ CHR ''.'' # fp \<and> ip \<noteq> [] \<and> list_all is_digit ip
           \<and> length fp = 2 \<and> list_all is_digit fp
           \<and> digits_value ip * 100 + digits_value fp = nat \<lfloor>x * 100 + 1 / 2\<rfloor>"
proof -
  define ds where "ds = dec (nat \<lfloor>\<bar>x\<bar> * 10 ^ 2 + 1 / 2\<rfloor>)"
  define padded where "padded = replicate (2 + 1 - length ds) CHR ''0'' @ ds"
  define k where "k = length padded - 2"
  have dig: "list_all is_digit padded"
    unfolding padded_def ds_def using dec_digits digit_zero by (auto simp: list_all_iff)
  have len: "3 \<le> length padded" unfolding padded_def by simp
  have f: "fixed_digits 2 x = take k padded @ CHR ''.'' # drop k padded"
    using assms by (simp add: fixed_digits_def Let_def ds_def padded_def k_def)
  have kpos: "0 < k" and kle: "k \<le> length padded" using len by (simp_all add: k_def)
  then have "length (take k padded) = k" by simp
  with kpos have 1: "take k padded \<noteq> []" by auto
  have 2: "length (drop k padded) = 2" using len by (simp add: k_def)
  have 3: "list_all is_digit (take k padded)" "list_all is_digit (drop k padded)"
    using dig by (auto simp: list_all_iff dest: in_set_takeD in_set_dropD)
  have "digits_value padded = nat \<lfloor>x * 100 + 1 / 2\<rfloor>"
    unfolding padded_def ds_def using assms by (simp add: digits_value_zeros digits_value_dec)
  moreover have "digits_value (take k padded @ drop k padded)
                 = digits_value (take k padded) * 10 ^ length (drop k padded)
                   + digits_value (drop k padded)"
    by (rule digits_value_append)
  ultimately have 4: "digits_value (take k padded) * 100 + digits_value (drop k padded)
                      = nat \<lfloor>x * 100 + 1 / 2\<rfloor>"
    using 2 by simp
  from f 1 2 3 4 show ?thesis by blast
qed

lemma decimal_shape:
  assumes "ip \<noteq> []" and "list_all is_digit ip" and "length fp = 2" and "list_all is_digit fp"
  shows "is_decimal_string (ip @ CHR ''.'' # fp)
         \<and> parseFloat (ip @ CHR ''.'' # fp)
           = fl (of_nat (digits_value ip * 100 + digits_value fp) / 100)"
proof -
  let ?s = "ip @ CHR ''.'' # fp"
  have all: "\<And>c. c \<in> set ip \<Longrightarrow> is_digit c" using assms(2) by (simp add: list_all_iff)
  have tw: "takeWhile is_digit ?s = ip"
    using takeWhile_append2 [of ip is_digit "CHR ''.'' # fp"] all not_digit_point by simp
  have dw: "dropWhile is_digit ?s = CHR ''.'' # fp"
    using dropWhile_append2 [of ip is_digit "CHR ''.'' # fp"] all not_digit_point by simp
  have dec: "is_decimal_string ?s"
    unfolding is_decimal_string_def tw dw using assms by simp
  obtain c cs where ip: "ip = c # cs" using assms(1) by (cases ip) auto
  then have c: "is_digit c" using all by simp
  then have nsp: "\<not> is_space c" and nm: "c \<noteq> CHR ''-''" and np: "c \<noteq> CHR ''+''"
    and ni: "c \<noteq> CHR ''I''"
    by (auto simp: is_digit_def is_space_def is_white_space_code_def)
  have s1: "dropWhile is_space ?s = ?s" using ip nsp by simp
  have neg: "(case ?s of [] \<Rightarrow> False | c # r \<Rightarrow> c = CHR ''-'') = False"
    using ip nm by simp
  have s2: "(case ?s of [] \<Rightarrow> [] | c # r \<Rightarrow> if c = CHR ''-'' \<or> c = CHR ''+'' then r else ?s) = ?s"
    using ip nm np by simp
  have npre: "\<not> prefix ''Infinity'' ?s" using ip ni by simp
  have tf: "takeWhile is_digit fp = fp" using assms(4) by (simp add: list_all_iff)
  have fpcase: "(case CHR ''.'' # fp of [] \<Rightarrow> []
                 | c # r \<Rightarrow> if c = CHR ''.'' then takeWhile is_digit r else []) = fp"
    using tf by simp
  have "parseFloat ?s
        = fl (of_nat (digits_value ip) + of_nat (digits_value fp) / 10 ^ length fp)"
    unfolding parseFloat_def Let_def s1 neg s2 tw dw fpcase
    using npre assms(1) by simp
  moreover have "(of_nat (digits_value ip) + of_nat (digits_value fp) / 10 ^ length fp :: rat)
                 = of_nat (digits_value ip * 100 + digits_value fp) / 100"
    using assms(3) by (simp add: field_simps)
  ultimately show ?thesis using dec by simp
qed

text \<open>
  The estimate for a non-empty file whose byte count a double holds exactly: the
  size in megabytes is exact, the division by 10 is rounded, and \<open>toFixed(2)\<close> prints
  it as a decimal string that \<open>parseFloat\<close> reads as a finite non-negative number.
\<close>

lemma estimate_positive:
  assumes "0 < n" and "n < 2 ^ 53"
  shows "is_decimal_string (estimateAudioDuration (megabytes n))
         \<and> (\<exists>v. parseFloat (estimateAudioDuration (megabytes n)) = Fin v \<and> 0 \<le> v)"
proof -
  define x :: rat where "x = of_nat n / 2 ^ 20 / 10"
  have x: "0 < x" using assms(1) by (simp add: x_def)
  have "(of_nat n :: rat) < of_nat (2 ^ 53)" using assms(2) by (simp only: of_nat_less_iff)
  then have "x \<le> 2 powi 53" by (simp add: x_def)
  from fl_finite [OF x this] obtain y where y: "fl x = Fin y" "0 \<le> y" "y \<le> 2 powi 53"
    by auto
  have e: "estimateAudioDuration (megabytes n) = fixed_digits 2 y"
    using assms(1) y(1) by (simp add: estimateAudioDuration_def megabytes_exact [OF assms(2)] x_def)
  from fixed2_shape [OF y(2)] obtain ip fp where s:
    "fixed_digits 2 y = ip @ CHR ''.'' # fp" "ip \<noteq> []" "list_all is_digit ip"
    "length fp = 2" "list_all is_digit fp"
    "digits_value ip * 100 + digits_value fp = nat \<lfloor>y * 100 + 1 / 2\<rfloor>"
    by blast
  define v :: rat where "v = of_nat (nat \<lfloor>y * 100 + 1 / 2\<rfloor>) / 100"
  from decimal_shape [OF s(2-5)] have d: "is_decimal_string (fixed_digits 2 y)"
    and p: "parseFloat (fixed_digits 2 y) = fl v"
    by (simp_all add: s(1,6) v_def)
  have v0: "0 \<le> v" by (simp add: v_def)
  have "of_int \<lfloor>y * 100 + 1 / 2\<rfloor> \<le> y * 100 + 1 / 2" by (rule of_int_floor_le)
  moreover have "0 \<le> \<lfloor>y * 100 + 1 / 2\<rfloor>" using y(2) by simp
  ultimately have "v \<le> (y * 100 + 1 / 2) / 100" by (simp add: v_def divide_right_mono)
  also have "\<dots> \<le> 2 powi 54" using y(3) by simp
  finally have vb: "v \<le> 2 powi 54" .
  have "\<exists>r. fl v = Fin r \<and> 0 \<le> r"
  proof (cases "v = 0")
    case True
    then show ?thesis by (simp add: fl_zero)
  next
    case False
    with v0 have "0 < v" by simp
    from fl_finite [OF this vb] show ?thesis by auto
  qed
  with d p show ?thesis by (simp add: e)
qed

lemma parseFloat_unknown: "parseFloat ''unknown'' = NaN"
  by (simp add: parseFloat_def is_space_def is_white_space_code_def is_digit_def)

lemma estimate_zero: "estimateAudioDuration (megabytes 0) = ''unknown''"
  by (simp add: estimateAudioDuration_def megabytes_zero)

subsection \<open>The sample environments\<close>

lemma sample_base36: "list_all is_base36 (math_random36 sample_env)"
  by (simp add: sample_env_def is_base36_def is_digit_def)

lemma sample_input_webm: "extname (inputPath (request_paths sample_env)) = ''.webm''"
  unfolding request_paths_def by (rule extname_inputPath) (rule sample_base36)

lemma video_mp4_not_audio: "\<not> matches_mime audioMimeTypes (Some ''video/mp4'')"
  by (simp add: matches_mime_def audioMimeTypes_def toLowerCase_def lower_char_def latin1_capitals_def latin1_smalls_def)

lemma audio_mpeg_is_audio:
  "matches_mime audioMimeTypes (Some ''audio/mpeg'')
   \<and> \<not> matches_mime videoMimeTypes (Some ''audio/mpeg'')"
  by (simp add: matches_mime_def audioMimeTypes_def videoMimeTypes_def toLowerCase_def
      lower_char_def latin1_capitals_def latin1_smalls_def)

lemma sample_client: "getOpenAIClient (client_cached sample_env) (OPENAI_API_KEY sample_env) = Inr ()"
  by (simp add: getOpenAIClient_def sample_env_def)

lemma sample_paths_same: "request_paths empty_audio_env = request_paths sample_env"
  by (simp add: empty_audio_env_def request_paths_def)

lemma no_unlinks_fail_cleanup:
  assumes "\<not> unlink_fails env a" and "\<not> unlink_fails env b" and "a \<noteq> b" and "a \<noteq> []" and "b \<noteq> []"
    and "files w a = Some n" and "files w b = Some k"
  shows "effects (snd (cleanupFiles env [a, b] w)) = effects w @ [Unlink a True, Unlink b True]"
  using assms by (simp add: emit_def remove_file_def)


lemma oversized_audio_is_refused:
  assumes "http_get env u = Completed n hdr"
    and "isAudioFile tin (header_or_null hdr)"
    and "js_gt (megabytes n) (Fin 25)"
  shows "\<exists>m. transcribe_steps env ou u pr tin tout w
             = (Inl (FileTooLarge m),
                emit (SizeCheck tin) (emit (Download u tin) (write_file tin n w)))"
proof -
  let ?w1 = "emit (Download u tin) (write_file tin n w)"
  have d: "downloadFile env u tin w
           = (Inr \<lparr> sizeBytes = n, sizeMB = megabytes n, contentType = header_or_null hdr \<rparr>, ?w1)"
    using assms(1) by (simp add: downloadFile_def)
  obtain m where v: "validateFileSize tin ?w1 = (Inl (FileTooLarge m), emit (SizeCheck tin) ?w1)"
    using assms(3) by (simp add: validateFileSize_def emit_def write_file_def Let_def)
  then have p: "prepare_audio env True tin tout ?w1 = (Inl (FileTooLarge m), emit (SizeCheck tin) ?w1)"
    by (simp add: prepare_audio_def)
  show ?thesis
    using assms(2) by (simp add: transcribe_steps_def d p Let_def)
qed



lemma empty_audio_run:
  "\<exists>sb. fst (transcribe_route empty_audio_env sample_request empty_world)
           = Response 200 (Success sb)
        \<and> Upload (inputPath (request_paths empty_audio_env)) (Some 0)
            \<in> set (effects (snd (transcribe_route empty_audio_env sample_request empty_world)))"
proof -
  let ?env = empty_audio_env
  let ?tin = "inputPath (request_paths ?env)"
  let ?tout = "outputPath (request_paths ?env)"
  let ?u = "''https://example.org/talk.mp3''"
  let ?b = "\<lparr> url = UrlString ?u, summarizationPrompt = None \<rparr>"
  have ext: "extname ?tin = ''.webm''"
    unfolding sample_paths_same by (rule sample_input_webm)
  have au: "isAudioFile ?tin (header_or_null (Some ''audio/mpeg''))"
    using isAudioFile_webm [OF ext] audio_mpeg_is_audio
    by (simp add: header_match audioMimeTypes_def videoMimeTypes_def)
  have h: "http_get ?env ?u = Completed 0 (Some ''audio/mpeg'')"
    by (simp add: empty_audio_env_def)
  have small: "\<not> js_gt (megabytes 0) (Fin 25)" by (simp add: megabytes_zero)
  have cl: "getOpenAIClient (client_cached ?env) (OPENAI_API_KEY ?env) = Inr ()"
    by (simp add: getOpenAIClient_def empty_audio_env_def sample_env_def)
  have wh: "whisper ?env ?tin = Inr ''hello world''"
    by (simp add: empty_audio_env_def sample_env_def)
  from steps_audio_run [OF h au small cl wh, of "url ?b" "summarizationPrompt ?b" ?tout empty_world]
  obtain sb cs w' where s:
    "transcribe_steps ?env (url ?b) ?u (summarizationPrompt ?b) ?tin ?tout empty_world
     = (Inr sb, w')"
    and c: "cleanupFiles ?env [?tin]
              \<lparr> files = (files empty_world)(?tin := Some 0),
                effects = effects empty_world
                  @ [Download ?u ?tin, SizeCheck ?tin, Upload ?tin (Some 0)] \<rparr>
            = (cs, w')"
    by (elim exE conjE)
  have route: "transcribe_route ?env sample_request empty_world
               = (Response 200 (Success sb), emit (Respond 200) w')"
    unfolding sample_request_def
    by (rule route_valid [where u = ?u and key = "''sk-test''"])
      (use s in \<open>simp_all add: empty_audio_env_def sample_env_def\<close>)
  from cleanupFiles_effects [OF c] obtain es where
    "effects w' = (effects empty_world @ [Download ?u ?tin, SizeCheck ?tin, Upload ?tin (Some 0)]) @ es"
    by auto
  then have "Upload ?tin (Some 0) \<in> set (effects (emit (Respond 200) w'))"
    by (simp add: emit_def)
  with route show ?thesis by simp
qed


section \<open>Claims on the transcription route\<close>

text \<open>
  Claim C1. The claim holds on the audio branch and fails on the extraction branch:
  \<open>extractAudioFromVideo\<close> compares no size and the handler calls nothing else before
  transcription. Here the extracted audio has 27,000,000 bytes, more than 25 MB; no
  size check appears among the effects, the file is uploaded and the response is 200.
\<close>

theorem oversized_extracted_audio_is_uploaded:
  "js_gt (megabytes 27000000) (Fin 25)
   \<and> status (fst (transcribe_route sample_env sample_request empty_world)) = 200
   \<and> effects (snd (transcribe_route sample_env sample_request empty_world))
     = [Download ''https://example.org/talk.mp3'' (inputPath (request_paths sample_env)),
        Extract (inputPath (request_paths sample_env)) (outputPath (request_paths sample_env)),
        Upload (outputPath (request_paths sample_env)) (Some 27000000),
        Unlink (inputPath (request_paths sample_env)) True,
        Unlink (outputPath (request_paths sample_env)) True,
        Respond 200]"
proof -
  let ?tin = "inputPath (request_paths sample_env)"
  let ?tout = "outputPath (request_paths sample_env)"
  let ?u = "''https://example.org/talk.mp3''"
  let ?b = "\<lparr> url = UrlString ?u, summarizationPrompt = None \<rparr>"
  note dist = request_paths_distinct [of sample_env]
  have big: "js_gt (megabytes 27000000) (Fin 25)" by (simp add: megabytes_exact)
  have na: "\<not> isAudioFile ?tin (header_or_null (Some ''video/mp4''))"
    using isAudioFile_webm [OF sample_input_webm] video_mp4_not_audio
    by (simp add: header_match audioMimeTypes_def)
  from steps_video_run [of sample_env ?u 5000000 "Some ''video/mp4''" ?tin "''/usr/bin/ffmpeg''"
      ?tout 27000000 "''hello world''" "url ?b" "summarizationPrompt ?b" empty_world]
    na sample_client dist
  obtain sb cs w' where s:
    "transcribe_steps sample_env (url ?b) ?u (summarizationPrompt ?b) ?tin ?tout empty_world
     = (Inr sb, w')"
    and c: "cleanupFiles sample_env [?tin, ?tout]
              \<lparr> files = (files empty_world)(?tin := Some 5000000, ?tout := Some 27000000),
                effects = effects empty_world
                  @ [Download ?u ?tin, Extract ?tin ?tout, Upload ?tout (Some 27000000)] \<rparr>
            = (cs, w')"
    by (auto simp: sample_env_def simp del: cleanupFiles.simps)
  have route: "transcribe_route sample_env sample_request empty_world
               = (Response 200 (Success sb), emit (Respond 200) w')"
    unfolding sample_request_def
    by (rule route_valid [where u = ?u and key = "''sk-test''"])
      (use s in \<open>simp_all add: sample_env_def\<close>)
  have nf: "\<not> unlink_fails sample_env ?tin" "\<not> unlink_fails sample_env ?tout"
    by (simp_all add: sample_env_def)
  from no_unlinks_fail_cleanup [OF nf, of
      "\<lparr> files = (files empty_world)(?tin := Some 5000000, ?tout := Some 27000000),
         effects = effects empty_world
           @ [Download ?u ?tin, Extract ?tin ?tout, Upload ?tout (Some 27000000)] \<rparr>"
      5000000 27000000] dist
  have "effects w' = [Download ?u ?tin, Extract ?tin ?tout, Upload ?tout (Some 27000000),
                      Unlink ?tin True, Unlink ?tout True]"
    unfolding c by (simp add: empty_world_def)
  with route big show ?thesis by (simp add: emit_def)
qed






text \<open>
  Claim C10. \<open>estimateAudioDuration\<close> returns the string \<open>unknown\<close> whenever the size
  is not strictly positive, and for the size of a non-empty file (a byte count that a
  double holds exactly) a decimal string that \<open>parseFloat\<close> reads as a non-negative
  number; \<open>parseFloat\<close> of \<open>unknown\<close> is \<open>NaN\<close>. So a request that succeeds after
  uploading an audio file of 0 bytes reports \<open>estimatedDurationMinutes\<close> as \<open>NaN\<close>.
  The value is the one passed to \<open>res.json\<close>.
\<close>

theorem zero_size_estimate_is_NaN:
  "(\<not> js_gt size_mb (Fin 0) \<longrightarrow> estimateAudioDuration size_mb = ''unknown'')
   \<and> (0 < n \<and> n < 2 ^ 53 \<longrightarrow>
        is_decimal_string (estimateAudioDuration (megabytes n))
        \<and> (\<exists>v. parseFloat (estimateAudioDuration (megabytes n)) = Fin v \<and> 0 \<le> v))
   \<and> parseFloat ''unknown'' = NaN
   \<and> (effects w = []
        \<and> fst (transcribe_route env req w) = Response 200 (Success sb)
        \<and> Upload p (Some 0) \<in> set (effects (snd (transcribe_route env req w)))
       \<longrightarrow> estimatedDurationMinutes sb = NaN)"
proof -
  have 1: "\<not> js_gt size_mb (Fin 0) \<longrightarrow> estimateAudioDuration size_mb = ''unknown''"
    by (simp add: estimateAudioDuration_def)
  have 2: "0 < n \<and> n < 2 ^ 53 \<longrightarrow>
        is_decimal_string (estimateAudioDuration (megabytes n))
        \<and> (\<exists>v. parseFloat (estimateAudioDuration (megabytes n)) = Fin v \<and> 0 \<le> v)"
    using estimate_positive [of n] by simp
  have 3: "effects w = []
        \<and> fst (transcribe_route env req w) = Response 200 (Success sb)
        \<and> Upload p (Some 0) \<in> set (effects (snd (transcribe_route env req w)))
       \<longrightarrow> estimatedDurationMinutes sb = NaN"
  proof
  assume a: "effects w = []
        \<and> fst (transcribe_route env req w) = Response 200 (Success sb)
        \<and> Upload p (Some 0) \<in> set (effects (snd (transcribe_route env req w)))"
  then have ok: "fst (transcribe_route env req w) = Response 200 (Success sb)" by simp
  let ?tin = "inputPath (request_paths env)" and ?tout = "outputPath (request_paths env)"
  from route_success_inv [OF ok] obtain b u w1 where
    rb: "req = Some b" and ub: "url b = UrlString u"
    and s: "transcribe_steps env (url b) u (summarizationPrompt b) ?tin ?tout w = (Inr sb, w1)"
    and w': "snd (transcribe_route env req w) = emit (Respond 200) w1"
    by (elim exE conjE) (rule that)
  from steps_success [OF s] obtain m hdr k w3 cs where
    est: "estimatedDurationMinutes sb = parseFloat (estimateAudioDuration (megabytes k))"
    and br: "if fileWasAudio sb
     then k = m \<and> \<not> js_gt (megabytes m) (Fin 25)
          \<and> effects w3 = effects w @ [Download u ?tin, SizeCheck ?tin, Upload ?tin (Some m)]
          \<and> files w3 = (files w)(?tin := Some m)
          \<and> cleanupFiles env [?tin] w3 = (cs, w1)
     else run_extract env ?tin ?tout = ExtractDone k \<and> ffmpegPath env \<noteq> None
          \<and> effects w3 = effects w @ [Download u ?tin, Extract ?tin ?tout, Upload ?tout (Some k)]
          \<and> files w3 = (files w)(?tin := Some m, ?tout := Some k)
          \<and> cleanupFiles env [?tin, ?tout] w3 = (cs, w1)"
    by blast
  have "\<exists>ps. cleanupFiles env ps w3 = (cs, w1)"
  proof (cases "fileWasAudio sb")
    case True
    with br show ?thesis by (intro exI [of _ "[?tin]"]) (simp del: cleanupFiles.simps)
  next
    case False
    with br show ?thesis by (intro exI [of _ "[?tin, ?tout]"]) (simp del: cleanupFiles.simps)
  qed
  then obtain ps where c: "cleanupFiles env ps w3 = (cs, w1)" ..
  from cleanupFiles_effects [OF c] obtain es where
    es: "effects w1 = effects w3 @ es" "\<forall>e \<in> set es. \<exists>q c. e = Unlink q c" by blast
  have "Upload p (Some 0) \<in> set (effects w3 @ es @ [Respond 200])"
    using a w' es by (simp add: emit_def)
  with es(2) have up: "Upload p (Some 0) \<in> set (effects w3)" by auto
  have "k = 0"
  proof (cases "fileWasAudio sb")
    case True
    with br a have "effects w3 = [Download u ?tin, SizeCheck ?tin, Upload ?tin (Some k)]"
      by (simp del: cleanupFiles.simps)
    with up show ?thesis by simp
  next
    case False
    with br a have "effects w3 = [Download u ?tin, Extract ?tin ?tout, Upload ?tout (Some k)]"
      by (simp del: cleanupFiles.simps)
    with up show ?thesis by simp
  qed
  with est show "estimatedDurationMinutes sb = NaN"
    by (simp add: estimate_zero parseFloat_unknown)
  qed
  from 1 2 3 parseFloat_unknown show ?thesis by blast
qed

theorem zero_size_estimate_is_NaN_witness:
  "\<not> js_gt (Fin 0) (Fin 0)
   \<and> estimateAudioDuration (Fin 0) = ''unknown''
   \<and> (0::nat) < 1048576 \<and> (1048576::nat) < 2 ^ 53
   \<and> is_decimal_string (estimateAudioDuration (megabytes 1048576))
   \<and> effects empty_world = []
   \<and> (\<exists>sb. fst (transcribe_route empty_audio_env sample_request empty_world)
             = Response 200 (Success sb)
          \<and> Upload (inputPath (request_paths empty_audio_env)) (Some 0)
              \<in> set (effects (snd (transcribe_route empty_audio_env sample_request empty_world)))
          \<and> estimatedDurationMinutes sb = NaN)"
proof -
  from empty_audio_run obtain sb where
    ok: "fst (transcribe_route empty_audio_env sample_request empty_world)
         = Response 200 (Success sb)"
    and up: "Upload (inputPath (request_paths empty_audio_env)) (Some 0)
             \<in> set (effects (snd (transcribe_route empty_audio_env sample_request empty_world)))"
    by (elim exE conjE)
  have e: "effects empty_world = []" by (simp add: empty_world_def)
  have z: "\<not> js_gt (Fin 0) (Fin 0)" by simp
  have n: "(0::nat) < 1048576 \<and> (1048576::nat) < 2 ^ 53" by simp
  note inst = zero_size_estimate_is_NaN [where size_mb = "Fin 0" and n = 1048576
      and w = empty_world and env = empty_audio_env and req = sample_request and sb = sb
      and p = "inputPath (request_paths empty_audio_env)"]
  from inst z have 1: "estimateAudioDuration (Fin 0) = ''unknown''" by blast
  from inst n have 2: "is_decimal_string (estimateAudioDuration (megabytes 1048576))" by blast
  from inst e ok up have 3: "estimatedDurationMinutes sb = NaN" by blast
  from z 1 n 2 e ok up 3 show ?thesis by blast
qed


section \<open>Sentiment and summary\<close>

lemma sentiment_catch_initial:
  "sentiment_catch env sentiment_initial =
     [(''sentiment'', JStr ''neutral''), (''confidence'', JNum 0), (''emotions'', JArr []),
      (''summary'', JStr ''Sentiment analysis could not be completed''),
      (''processingTime'', JNum (of_nat (elapsed env))),
      (''tokenUsage'', usage_json zero_usage), (''error'', JBool True)]"
  by (simp add: sentiment_catch_def sentiment_initial_def)

lemma analyzeSentiment_cases:
  "analyzeSentiment env tx = Inr (sentiment_catch env sentiment_initial)
   \<or> (\<exists>r. analyzeSentiment_try env tx = Inr r \<and> analyzeSentiment env tx = Inr r)"
  by (cases "analyzeSentiment_try env tx") (simp_all add: analyzeSentiment_def)

lemma sentiment_try_fails:
  assumes "(\<exists>e. chat env (SentimentRequest tx) = Inl e)
           \<or> (\<exists>resp c cs. chat env (SentimentRequest tx) = Inr resp
                 \<and> choices resp = Some c # cs \<and> JSON_parse env c = None)"
  shows "\<exists>e. analyzeSentiment_try env tx = Inl e"
  using assms by (auto simp: analyzeSentiment_try_def split: sum.splits)

lemma summary_try_fails:
  assumes "chat env (SummaryRequest (chosen_prompt p (DEFAULT_SUMMARIZATION_PROMPT env)) tx) = Inl e"
  shows "\<exists>e. generateSummary_try env tx p = Inl e"
  using assms by (auto simp: generateSummary_try_def split: sum.splits)

lemma summary_try_answers:
  assumes "getOpenAIClient (client_cached env) (OPENAI_API_KEY env) = Inr ()"
    and "chat env (SummaryRequest (chosen_prompt p (DEFAULT_SUMMARIZATION_PROMPT env)) tx) = Inr resp"
    and "choices resp = Some c # cs" and "usage resp = Some us"
  shows "generateSummary_try env tx p
         = Inr \<lparr> summary = trim c, processingTime = elapsed env, tokenUsage = us,
                  error = False \<rparr>"
  using assms by (simp add: generateSummary_try_def)

text \<open>
  Claim C5, as amended. \<open>analyzeSentiment\<close> and \<open>generateSummary\<close> never raise.
  On a provider error or a first choice that is not JSON, \<open>analyzeSentiment\<close> returns
  exactly the fallback object (neutral, confidence 0, no emotions, error true, a fixed
  summary string). On a provider error \<open>generateSummary\<close> returns error true with its
  fixed fallback summary. When the client is available and the provider answers with a
  text and its usage counters, \<open>generateSummary\<close> returns that text trimmed, with
  error false, whether the text is JSON or not; and whenever it reports no error its
  summary is the trimmed text of the first choice.
\<close>

theorem enrichment_degrades:
  "(\<exists>r. analyzeSentiment env tx = Inr r)
   \<and> (\<exists>s. generateSummary env tx p = Inr s)
   \<and> ((\<exists>e. chat env (SentimentRequest tx) = Inl e)
        \<or> (\<exists>resp c cs. chat env (SentimentRequest tx) = Inr resp
              \<and> choices resp = Some c # cs \<and> JSON_parse env c = None)
       \<longrightarrow> analyzeSentiment env tx =
             Inr [(''sentiment'', JStr ''neutral''), (''confidence'', JNum 0),
                  (''emotions'', JArr []),
                  (''summary'', JStr ''Sentiment analysis could not be completed''),
                  (''processingTime'', JNum (of_nat (elapsed env))),
                  (''tokenUsage'', usage_json zero_usage), (''error'', JBool True)])
   \<and> ((\<exists>e. chat env (SummaryRequest (chosen_prompt p (DEFAULT_SUMMARIZATION_PROMPT env)) tx)
              = Inl e)
       \<longrightarrow> generateSummary env tx p =
             Inr \<lparr> summary = ''Summarization could not be completed due to an error.'',
                    processingTime = elapsed env, tokenUsage = zero_usage, error = True \<rparr>)
   \<and> (\<forall>resp c cs us.
          getOpenAIClient (client_cached env) (OPENAI_API_KEY env) = Inr ()
          \<and> chat env (SummaryRequest (chosen_prompt p (DEFAULT_SUMMARIZATION_PROMPT env)) tx)
              = Inr resp
          \<and> choices resp = Some c # cs \<and> usage resp = Some us
          \<longrightarrow> generateSummary env tx p =
                Inr \<lparr> summary = trim c, processingTime = elapsed env, tokenUsage = us,
                       error = False \<rparr>)
   \<and> (\<forall>s. generateSummary env tx p = Inr s \<and> \<not> error s \<longrightarrow>
          (\<exists>resp c cs.
             chat env (SummaryRequest (chosen_prompt p (DEFAULT_SUMMARIZATION_PROMPT env)) tx)
               = Inr resp
             \<and> choices resp = Some c # cs \<and> summary s = trim c))"
proof (intro conjI impI allI)
  show "\<exists>r. analyzeSentiment env tx = Inr r"
    using analyzeSentiment_cases [of env tx] by blast
  show "\<exists>s. generateSummary env tx p = Inr s"
    by (cases "generateSummary_try env tx p") (simp_all add: generateSummary_def)
next
  assume "(\<exists>e. chat env (SentimentRequest tx) = Inl e)
          \<or> (\<exists>resp c cs. chat env (SentimentRequest tx) = Inr resp
                \<and> choices resp = Some c # cs \<and> JSON_parse env c = None)"
  from sentiment_try_fails [OF this] obtain e where "analyzeSentiment_try env tx = Inl e" ..
  then show "analyzeSentiment env tx =
             Inr [(''sentiment'', JStr ''neutral''), (''confidence'', JNum 0),
                  (''emotions'', JArr []),
                  (''summary'', JStr ''Sentiment analysis could not be completed''),
                  (''processingTime'', JNum (of_nat (elapsed env))),
                  (''tokenUsage'', usage_json zero_usage), (''error'', JBool True)]"
    by (simp add: analyzeSentiment_def sentiment_catch_initial)
next
  assume "\<exists>e. chat env (SummaryRequest (chosen_prompt p (DEFAULT_SUMMARIZATION_PROMPT env)) tx)
              = Inl e"
  then obtain e where
    "chat env (SummaryRequest (chosen_prompt p (DEFAULT_SUMMARIZATION_PROMPT env)) tx) = Inl e" ..
  from summary_try_fails [OF this] obtain e' where "generateSummary_try env tx p = Inl e'" ..
  then show "generateSummary env tx p =
             Inr \<lparr> summary = ''Summarization could not be completed due to an error.'',
                    processingTime = elapsed env, tokenUsage = zero_usage, error = True \<rparr>"
    by (simp add: generateSummary_def)
next
  fix resp c cs us
  assume "getOpenAIClient (client_cached env) (OPENAI_API_KEY env) = Inr ()
          \<and> chat env (SummaryRequest (chosen_prompt p (DEFAULT_SUMMARIZATION_PROMPT env)) tx)
              = Inr resp
          \<and> choices resp = Some c # cs \<and> usage resp = Some us"
  then have "generateSummary_try env tx p
             = Inr \<lparr> summary = trim c, processingTime = elapsed env, tokenUsage = us,
                      error = False \<rparr>"
    by (intro summary_try_answers [where cs = cs and resp = resp]) simp_all
  then show "generateSummary env tx p =
             Inr \<lparr> summary = trim c, processingTime = elapsed env, tokenUsage = us,
                    error = False \<rparr>"
    by (simp add: generateSummary_def)
next
  fix s
  assume "generateSummary env tx p = Inr s \<and> \<not> error s"
  then show "\<exists>resp c cs.
             chat env (SummaryRequest (chosen_prompt p (DEFAULT_SUMMARIZATION_PROMPT env)) tx)
               = Inr resp
             \<and> choices resp = Some c # cs \<and> summary s = trim c"
    by (auto simp: generateSummary_def generateSummary_try_def Let_def
        split: sum.splits list.splits option.splits)
qed

theorem enrichment_degrades_witness:
  "chat (sample_env\<lparr> chat := (\<lambda>r. Inl (ProviderError ''timeout'')) \<rparr>)
      (SentimentRequest ''hello world'') = Inl (ProviderError ''timeout'')
   \<and> obj_get (projr (analyzeSentiment
                 (sample_env\<lparr> chat := (\<lambda>r. Inl (ProviderError ''timeout'')) \<rparr>) ''hello world''))
        ''sentiment'' = Some (JStr ''neutral'')
   \<and> error (projr (generateSummary
                 (sample_env\<lparr> chat := (\<lambda>r. Inl (ProviderError ''timeout'')) \<rparr>) ''hello world'' None))
   \<and> getOpenAIClient (client_cached sample_env) (OPENAI_API_KEY sample_env) = Inr ()
   \<and> choices (projr (chat sample_env
                 (SummaryRequest (chosen_prompt None (DEFAULT_SUMMARIZATION_PROMPT sample_env))
                    ''hello world''))) = [Some '' A greeting. '']
   \<and> summary (projr (generateSummary sample_env ''hello world'' None)) = trim '' A greeting. ''
   \<and> \<not> error (projr (generateSummary sample_env ''hello world'' None))"
proof -
  let ?env = "sample_env\<lparr> chat := (\<lambda>r. Inl (ProviderError ''timeout'')) \<rparr>"
  let ?resp = "\<lparr> choices = [Some '' A greeting. ''],
                 usage = Some \<lparr> promptTokens = 80, completionTokens = 5, totalTokens = 85 \<rparr> \<rparr>"
  have 1: "chat ?env (SentimentRequest ''hello world'') = Inl (ProviderError ''timeout'')"
    by simp
  have 2: "\<exists>e. chat ?env (SummaryRequest
              (chosen_prompt None (DEFAULT_SUMMARIZATION_PROMPT ?env)) ''hello world'') = Inl e"
    by simp
  have 3: "getOpenAIClient (client_cached sample_env) (OPENAI_API_KEY sample_env) = Inr ()"
    by (simp add: sample_env_def getOpenAIClient_def)
  have 4: "chat sample_env (SummaryRequest
              (chosen_prompt None (DEFAULT_SUMMARIZATION_PROMPT sample_env)) ''hello world'')
           = Inr ?resp"
    by (simp add: sample_env_def)
  from enrichment_degrades [of ?env "''hello world''" None] 1 2
  have a: "obj_get (projr (analyzeSentiment ?env ''hello world'')) ''sentiment''
             = Some (JStr ''neutral'')
           \<and> error (projr (generateSummary ?env ''hello world'' None))"
    by (simp add: obj_get_def)
  from enrichment_degrades [of sample_env "''hello world''" None] 3 4
  have "generateSummary sample_env ''hello world'' None
        = Inr \<lparr> summary = trim '' A greeting. '', processingTime = elapsed sample_env,
                 tokenUsage = \<lparr> promptTokens = 80, completionTokens = 5, totalTokens = 85 \<rparr>,
                 error = False \<rparr>"
    by simp
  with 1 3 4 a show ?thesis by simp
qed

text \<open>
  Claim C5 as stated fails for \<open>generateSummary\<close>: an answer that is not JSON is its
  normal result, returned with \<open>error\<close> false.
\<close>

theorem plain_text_summary_is_no_error:
  "JSON_parse sample_env '' A greeting. '' = None
   \<and> generateSummary sample_env ''hello world'' None
       = Inr \<lparr> summary = ''A greeting.'', processingTime = 7,
                tokenUsage = \<lparr> promptTokens = 80, completionTokens = 5, totalTokens = 85 \<rparr>,
                error = False \<rparr>"
  by (simp add: sample_env_def generateSummary_def generateSummary_try_def getOpenAIClient_def
      chosen_prompt_def trim_def is_space_def is_white_space_code_def)

section \<open>Frame sampling\<close>

lemma hasDuration_Fin: "hasDuration v = (\<exists>d. v = Fin d \<and> 0 < d)"
  by (cases v) (auto simp: hasDuration_def)

text \<open>The loop in closed form: the indices below the bound, up to the first \<open>break\<close>.\<close>

lemma sample_loop_takeWhile:
  assumes "hasDuration D"
  shows "sample_loop D iv fc i
         = map (\<lambda>k. (k, js_mul (Fin (of_nat k)) (Fin iv)))
             (takeWhile (\<lambda>k. \<not> js_ge (js_mul (Fin (of_nat k)) (Fin iv)) D) [i..<nat fc])"
proof (induction "nat fc - i" arbitrary: i)
  case 0
  then have "\<not> int i < fc" by linarith
  moreover have "[i..<nat fc] = []" using 0 by simp
  ultimately show ?case by (simp add: sample_loop.simps)
next
  case (Suc n)
  then have lt: "int i < fc" by linarith
  have n: "n = nat fc - Suc i" using Suc.hyps by linarith
  have up: "[i..<nat fc] = i # [Suc i..<nat fc]" using lt by (simp add: upt_conv_Cons)
  show ?case
    using Suc.hyps(1) [OF n] lt assms up
    by (subst sample_loop.simps) (simp add: Let_def del: upt_Suc)
qed

lemma sample_loop_fallback:
  "\<not> hasDuration v \<Longrightarrow> sample_loop v iv 1 0 = [(0, Fin 0)]"
  by (simp add: sample_loop.simps [of v iv 1 0] sample_loop.simps [of v iv 1 "Suc 0"])

lemma frameCount_rounded:
  assumes "0 < d" "0 < iv" "0 < maxFrames"
  shows "(js_div (Fin d) (Fin iv) = PosInf \<and> frameCount (Fin d) iv maxFrames = maxFrames)
         \<or> (\<exists>q. js_div (Fin d) (Fin iv) = Fin q \<and> 0 \<le> q
               \<and> frameCount (Fin d) iv maxFrames = min maxFrames \<lceil>q\<rceil>)"
proof -
  have h: "hasDuration (Fin d)" using assms by (simp add: hasDuration_def)
  have "0 \<le> d / iv" using assms by simp
  from fl_nonneg [OF this] show ?thesis
  proof (elim disjE exE conjE)
    assume "fl (d / iv) = PosInf"
    then show ?thesis using assms h by (simp add: frameCount_def)
  next
    fix q assume q: "fl (d / iv) = Fin q" "0 \<le> q"
    then have "0 \<le> \<lceil>q\<rceil>" by simp
    then show ?thesis using assms h q by (simp add: frameCount_def)
  qed
qed

lemma timestamp_below:
  assumes "0 < iv" "\<not> js_ge (js_mul (Fin (of_nat k)) (Fin iv)) (Fin d)"
  shows "\<exists>t. js_mul (Fin (of_nat k)) (Fin iv) = Fin t \<and> 0 \<le> t \<and> t < d"
proof -
  have "0 \<le> of_nat k * iv" using assms(1) by simp
  from fl_nonneg [OF this] assms(2) show ?thesis by auto
qed

text \<open>
  Durations and intervals that are multiples of one power of two, with numerators
  below \<open>2^53\<close> (whole numbers of seconds among them): no product is rounded, and
  the rounded quotient has the ceiling of the exact one.
\<close>

lemma exact_sampling:
  fixes a b k :: nat
  assumes a: "0 < a" "a < 2 ^ 53" and b: "0 < b" "b < 2 ^ 53" and k: "k \<le> 1074"
    and m: "0 < maxFrames"
  shows "frame_points (Fin (of_nat a / 2 ^ k)) (of_nat b / 2 ^ k) maxFrames
         = map (\<lambda>i. (i, Fin (of_nat i * (of_nat b / 2 ^ k))))
             [0..<nat (min maxFrames \<lceil>(of_nat a / 2 ^ k) / (of_nat b / 2 ^ k) :: rat\<rceil>)]"
proof -
  define d :: rat where "d = of_nat a / 2 ^ k"
  define iv :: rat where "iv = of_nat b / 2 ^ k"
  define c where "c = \<lceil>of_nat a / of_nat b :: rat\<rceil>"
  have d: "0 < d" and iv: "0 < iv" using a b by (simp_all add: d_def iv_def)
  have h: "hasDuration (Fin d)" using d by (simp add: hasDuration_def)
  have quot: "d / iv = of_nat a / of_nat b" by (simp add: d_def iv_def)
  from ceiling_fl_quotient [OF a b] obtain y where
    y: "fl (of_nat a / of_nat b) = Fin y" "\<lceil>y\<rceil> = c" unfolding c_def by blast
  have "0 < of_nat a / (of_nat b :: rat)" using a b by simp
  then have cpos: "0 < c" unfolding c_def by simp
  have fc: "frameCount (Fin d) iv maxFrames = min maxFrames c"
    using h iv y cpos m by (simp add: frameCount_def quot)
  have ts: "js_mul (Fin (of_nat i)) (Fin iv) = Fin (of_nat i * iv) \<and> of_nat i * iv < d"
    if "i < nat (min maxFrames c)" for i
  proof -
    from that have "int i < c" by simp
    then have "of_int (int i) < (of_nat a / of_nat b :: rat)"
      unfolding c_def by (simp add: less_ceiling_iff)
    then have "(of_nat i :: rat) * of_nat b < of_nat a" using b(1)
      by (simp add: pos_less_divide_eq)
    then have "(of_nat (i * b) :: rat) < of_nat a" by simp
    then have lt: "i * b < a" by (simp only: of_nat_less_iff)
    with a(2) have "i * b < 2 ^ 53" by simp
    from fl_dyadic [OF this k] have "fl (of_nat i * iv) = Fin (of_nat i * iv)"
      by (simp add: iv_def)
    moreover have "of_nat i * iv < d"
    proof -
      have "(of_nat (i * b) :: rat) < of_nat a" using lt by (simp only: of_nat_less_iff)
      then have "(of_nat (i * b) :: rat) / 2 ^ k < of_nat a / 2 ^ k"
        by (simp add: divide_strict_right_mono)
      then show ?thesis by (simp add: d_def iv_def)
    qed
    ultimately show ?thesis by simp
  qed
  have all: "takeWhile (\<lambda>i. \<not> js_ge (js_mul (Fin (of_nat i)) (Fin iv)) (Fin d))
               [0..<nat (min maxFrames c)] = [0..<nat (min maxFrames c)]"
  proof -
    have "\<not> js_ge (js_mul (Fin (of_nat i)) (Fin iv)) (Fin d)"
      if "i \<in> set [0..<nat (min maxFrames c)]" for i
    proof -
      from that have "i < nat (min maxFrames c)" by simp
      from ts [OF this] show ?thesis by simp
    qed
    then show ?thesis by (simp only: takeWhile_eq_all_conv) blast
  qed
  have "frame_points (Fin d) iv maxFrames
        = map (\<lambda>i. (i, js_mul (Fin (of_nat i)) (Fin iv))) [0..<nat (min maxFrames c)]"
    unfolding frame_points_def fc sample_loop_takeWhile [OF h] all ..
  also have "\<dots> = map (\<lambda>i. (i, Fin (of_nat i * iv))) [0..<nat (min maxFrames c)]"
    using ts by (intro map_cong) simp_all
  finally show ?thesis unfolding d_def iv_def c_def by (simp add: quot [unfolded d_def iv_def])
qed

text \<open>
  Claim C6, as amended. For every video whose probed duration is a finite positive
  number, frame sampling requests the frames of the indices 0, 1, 2, ... below
  \<open>min(maxFrames, ceil(duration / intervalSeconds))\<close>, each at the timestamp index
  times interval, and stops before the first index whose timestamp is not strictly
  below the duration. Quotient and products are rounded to doubles, so the number of
  frames is at most the bound and every timestamp is strictly below the duration.
  The number of frames is exactly \<open>min(maxFrames, ceil(duration / intervalSeconds))\<close>,
  at the exact timestamps 0, interval, 2 interval, ..., when duration and interval are
  multiples of one power of two with numerators below \<open>2^53\<close>, whole numbers of
  seconds in particular. When the duration is unavailable or not positive, exactly one
  frame is requested, at timestamp 0. The interval and the frame limit are positive,
  as the contract of the sampler requires.
\<close>

theorem frame_sampling:
  assumes "0 < intervalSeconds" and "0 < maxFrames"
  shows "(hasDuration videoDuration \<longrightarrow>
            (\<exists>d. videoDuration = Fin d
               \<and> frame_points videoDuration intervalSeconds maxFrames
                   = map (\<lambda>k. (k, js_mul (Fin (of_nat k)) (Fin intervalSeconds)))
                       (takeWhile
                          (\<lambda>k. \<not> js_ge (js_mul (Fin (of_nat k)) (Fin intervalSeconds)) videoDuration)
                          [0..<nat (frameCount videoDuration intervalSeconds maxFrames)])
               \<and> (\<forall>q. js_div videoDuration (Fin intervalSeconds) = Fin q \<longrightarrow>
                      frameCount videoDuration intervalSeconds maxFrames = min maxFrames \<lceil>q\<rceil>)
               \<and> (js_div videoDuration (Fin intervalSeconds) = PosInf \<longrightarrow>
                      frameCount videoDuration intervalSeconds maxFrames = maxFrames)
               \<and> int (length (frame_points videoDuration intervalSeconds maxFrames))
                   \<le> frameCount videoDuration intervalSeconds maxFrames
               \<and> (\<forall>pt \<in> set (frame_points videoDuration intervalSeconds maxFrames).
                      \<exists>t. snd pt = Fin t \<and> 0 \<le> t \<and> t < d)))
         \<and> (\<forall>a b k. videoDuration = Fin (of_nat a / 2 ^ k) \<and> intervalSeconds = of_nat b / 2 ^ k
                \<and> 0 < a \<and> a < 2 ^ 53 \<and> b < 2 ^ 53 \<and> k \<le> 1074 \<longrightarrow>
               frame_points videoDuration intervalSeconds maxFrames
               = map (\<lambda>i. (i, Fin (of_nat i * intervalSeconds)))
                   [0..<nat (min maxFrames \<lceil>(of_nat a / 2 ^ k) / intervalSeconds\<rceil>)])
         \<and> (\<not> hasDuration videoDuration \<longrightarrow>
               frame_points videoDuration intervalSeconds maxFrames = [(0, Fin 0)])"
proof (intro conjI impI allI)
  assume h: "hasDuration videoDuration"
  then obtain d where d: "videoDuration = Fin d" "0 < d" by (auto simp: hasDuration_Fin)
  let ?ts = "\<lambda>k. js_mul (Fin (of_nat k)) (Fin intervalSeconds)"
  let ?fc = "frameCount videoDuration intervalSeconds maxFrames"
  let ?ks = "takeWhile (\<lambda>k. \<not> js_ge (?ts k) videoDuration) [0..<nat ?fc]"
  have pts: "frame_points videoDuration intervalSeconds maxFrames = map (\<lambda>k. (k, ?ts k)) ?ks"
    unfolding frame_points_def by (rule sample_loop_takeWhile [OF h])
  from frameCount_rounded [OF d(2) assms]
  have fq: "\<forall>q. js_div videoDuration (Fin intervalSeconds) = Fin q \<longrightarrow> ?fc = min maxFrames \<lceil>q\<rceil>"
    and fi: "js_div videoDuration (Fin intervalSeconds) = PosInf \<longrightarrow> ?fc = maxFrames"
    and f0: "0 \<le> ?fc"
    using assms(2) unfolding d(1) by auto
  have "length ?ks \<le> length [0..<nat ?fc]" by (rule length_takeWhile_le)
  then have len: "int (length (frame_points videoDuration intervalSeconds maxFrames)) \<le> ?fc"
    using f0 by (simp add: pts)
  have below: "\<forall>pt \<in> set (frame_points videoDuration intervalSeconds maxFrames).
                 \<exists>t. snd pt = Fin t \<and> 0 \<le> t \<and> t < d"
  proof
    fix pt assume "pt \<in> set (frame_points videoDuration intervalSeconds maxFrames)"
    then obtain k where k: "k \<in> set ?ks" "pt = (k, ?ts k)" unfolding pts by auto
    from k(1) have "\<not> js_ge (?ts k) (Fin d)" unfolding d(1) by (auto dest: set_takeWhileD)
    from timestamp_below [OF assms(1) this] k(2) show "\<exists>t. snd pt = Fin t \<and> 0 \<le> t \<and> t < d"
      by simp
  qed
  show "\<exists>d. videoDuration = Fin d
          \<and> frame_points videoDuration intervalSeconds maxFrames = map (\<lambda>k. (k, ?ts k)) ?ks
          \<and> (\<forall>q. js_div videoDuration (Fin intervalSeconds) = Fin q \<longrightarrow>
                 ?fc = min maxFrames \<lceil>q\<rceil>)
          \<and> (js_div videoDuration (Fin intervalSeconds) = PosInf \<longrightarrow> ?fc = maxFrames)
          \<and> int (length (frame_points videoDuration intervalSeconds maxFrames)) \<le> ?fc
          \<and> (\<forall>pt \<in> set (frame_points videoDuration intervalSeconds maxFrames).
                 \<exists>t. snd pt = Fin t \<and> 0 \<le> t \<and> t < d)"
    using d(1) pts fq fi len below by blast
next
  fix a b k :: nat
  assume e: "videoDuration = Fin (of_nat a / 2 ^ k) \<and> intervalSeconds = of_nat b / 2 ^ k
             \<and> 0 < a \<and> a < 2 ^ 53 \<and> b < 2 ^ 53 \<and> k \<le> 1074"
  with assms(1) have b: "0 < b" by (cases "b = 0") simp_all
  from e b assms(2) exact_sampling [of a b k maxFrames]
  show "frame_points videoDuration intervalSeconds maxFrames
        = map (\<lambda>i. (i, Fin (of_nat i * intervalSeconds)))
            [0..<nat (min maxFrames \<lceil>(of_nat a / 2 ^ k) / intervalSeconds\<rceil>)]"
    by simp
next
  assume "\<not> hasDuration videoDuration"
  then show "frame_points videoDuration intervalSeconds maxFrames = [(0, Fin 0)]"
    by (simp add: frame_points_def frameCount_def sample_loop_fallback)
qed

lemma ceiling_rat_numeral: "\<lceil>numeral a / numeral b :: rat\<rceil> = - ((- numeral a) div numeral b)"
  by (metis ceiling_divide_eq_div of_int_numeral)

theorem frame_sampling_witness:
  "(0::rat) < 5 \<and> (0::int) < 6 \<and> hasDuration (Fin 37)
   \<and> frame_points (Fin 37) 5 6
      = [(0, Fin 0), (1, Fin 5), (2, Fin 10), (3, Fin 15), (4, Fin 20), (5, Fin 25)]
   \<and> \<not> hasDuration (resolve_duration NaN NaN)
   \<and> frame_points (resolve_duration NaN NaN) 5 6 = [(0, Fin 0)]"
proof -
  have a: "(0::rat) < 5" and b: "(0::int) < 6" by simp_all
  have h: "hasDuration (Fin 37)" by (simp add: hasDuration_def)
  have n: "\<not> hasDuration (resolve_duration NaN NaN)"
    by (simp add: hasDuration_def resolve_duration_def)
  have c: "nat (min 6 \<lceil>37 / 5 :: rat\<rceil>) = 6" by (simp add: ceiling_rat_numeral)
  have u: "[0..<6] = [0, 1, 2, 3, 4, 5]" by (simp add: upt_rec)
  have e: "Fin 37 = Fin (of_nat 37 / 2 ^ 0) \<and> (5::rat) = of_nat 5 / 2 ^ 0
           \<and> (0::nat) < 37 \<and> (37::nat) < 2 ^ 53 \<and> (5::nat) < 2 ^ 53 \<and> (0::nat) \<le> 1074"
    by simp
  from frame_sampling [OF a b, of "Fin 37"] e
  have "frame_points (Fin 37) 5 6
        = map (\<lambda>i. (i, Fin (of_nat i * 5))) [0..<nat (min 6 \<lceil>(of_nat 37 / 2 ^ 0) / 5 :: rat\<rceil>)]"
    by blast
  then have 1: "frame_points (Fin 37) 5 6
                = [(0, Fin 0), (1, Fin 5), (2, Fin 10), (3, Fin 15), (4, Fin 20), (5, Fin 25)]"
    by (simp add: c u)
  from frame_sampling [OF a b, of "resolve_duration NaN NaN"] n
  have 2: "frame_points (resolve_duration NaN NaN) 5 6 = [(0, Fin 0)]" by blast
  show ?thesis using a b h n 1 2 by blast
qed

lemma double_0_1_nearest: "fl (1 / 10) = Fin double_0_1"
proof -
  have r: "round_even ((1 / 10) / 2 powi (- 4 - 52)) = 7205759403792794"
    by (rule round_even_nearest) simp_all
  have "fl (1 / 10) = Fin (of_int (round_even ((1 / 10) / 2 powi (- 4 - 52))) * 2 powi (- 4 - 52))"
    by (rule fl_normal) simp_all
  then show ?thesis unfolding r by (simp add: double_0_1_def)
qed

lemma three_tenths: "fl (3 * double_0_1) = Fin double_0_3"
proof -
  let ?x = "3 * double_0_1"
  have t: "?x / 2 powi (- 2 - 52) = of_int 5404319552844595 + 1 / 2"
    by (simp add: double_0_1_def)
  have r: "round_even (?x / 2 powi (- 2 - 52)) = 5404319552844596"
    unfolding t by (simp only: round_even_tie) simp
  have "fl ?x = Fin (of_int (round_even (?x / 2 powi (- 2 - 52))) * 2 powi (- 2 - 52))"
    by (rule fl_normal) (simp_all add: double_0_1_def)
  then show ?thesis unfolding r by (simp add: double_0_3_def)
qed

lemma double_0_3_sum: "js_add (fl (1 / 10)) (fl (2 / 10)) = Fin double_0_3"
proof -
  have r2: "round_even ((2 / 10) / 2 powi (- 3 - 52)) = 7205759403792794"
    by (rule round_even_nearest) simp_all
  have "fl (2 / 10) = Fin (of_int (round_even ((2 / 10) / 2 powi (- 3 - 52))) * 2 powi (- 3 - 52))"
    by (rule fl_normal) simp_all
  then have f2: "fl (2 / 10) = Fin (2 * double_0_1)" unfolding r2 by (simp add: double_0_1_def)
  show ?thesis unfolding double_0_1_nearest f2 by (simp add: three_tenths)
qed

lemma sample_quotient: "js_div (Fin double_0_3) (Fin double_0_1) = Fin (6755399441055745 / 2 ^ 51)"
proof -
  let ?x = "double_0_3 / double_0_1"
  have r: "round_even (?x / 2 powi (1 - 52)) = 6755399441055745"
    by (rule round_even_nearest) (simp_all add: double_0_1_def double_0_3_def)
  have "fl ?x = Fin (of_int (round_even (?x / 2 powi (1 - 52))) * 2 powi (1 - 52))"
    by (rule fl_normal) (simp_all add: double_0_1_def double_0_3_def)
  then have "fl ?x = Fin (6755399441055745 / 2 ^ 51)" unfolding r by simp
  moreover have "double_0_1 \<noteq> 0" by (simp add: double_0_1_def)
  ultimately show ?thesis by simp
qed

lemma sample_timestamps:
  "js_mul (Fin 0) (Fin double_0_1) = Fin 0"
  "js_mul (Fin 1) (Fin double_0_1) = Fin double_0_1"
  "js_mul (Fin 2) (Fin double_0_1) = Fin (2 * double_0_1)"
  "js_mul (Fin 3) (Fin double_0_1) = Fin double_0_3"
proof -
  show "js_mul (Fin 0) (Fin double_0_1) = Fin 0" by (simp add: fl_zero)
  show "js_mul (Fin 1) (Fin double_0_1) = Fin double_0_1"
    using fl_dyadic [of 3602879701896397 55] by (simp add: double_0_1_def)
  show "js_mul (Fin 2) (Fin double_0_1) = Fin (2 * double_0_1)"
    using fl_dyadic [of 7205759403792794 55] by (simp add: double_0_1_def)
  show "js_mul (Fin 3) (Fin double_0_1) = Fin double_0_3" by (simp add: three_tenths)
qed

text \<open>
  Claim C6 as stated fails: for a duration of \<open>0.30000000000000004\<close> seconds (the
  double that \<open>0.1 + 0.2\<close> evaluates to) and an interval of \<open>0.1\<close>, the quotient
  rounds to a double just above 3, so \<open>min(maxFrames, ceil(duration / interval))\<close> is
  4 for a limit of 10, but the product \<open>3 * 0.1\<close> rounds up to the duration and the
  loop stops after three frames.
\<close>

theorem rounded_timestamp_ends_sampling_early:
  "fl (1 / 10) = Fin double_0_1
   \<and> js_add (fl (1 / 10)) (fl (2 / 10)) = Fin double_0_3
   \<and> hasDuration (Fin double_0_3)
   \<and> min 10 \<lceil>double_0_3 / double_0_1\<rceil> = (4::int)
   \<and> frameCount (Fin double_0_3) double_0_1 10 = 4
   \<and> frame_points (Fin double_0_3) double_0_1 10
      = [(0, Fin 0), (1, Fin double_0_1), (2, Fin (2 * double_0_1))]"
proof -
  have h: "hasDuration (Fin double_0_3)" by (simp add: hasDuration_def double_0_3_def)
  have c: "\<lceil>double_0_3 / double_0_1\<rceil> = 4"
    by (rule ceiling_unique) (simp_all add: double_0_1_def double_0_3_def)
  have c': "\<lceil>6755399441055745 / 2 ^ 51 :: rat\<rceil> = 4" by (rule ceiling_unique) simp_all
  have fc: "frameCount (Fin double_0_3) double_0_1 10 = 4"
    using h c' by (simp add: frameCount_def sample_quotient del: js_div.simps)
  have u: "[0..<4] = [0, 1, 2, 3]" by (simp add: upt_rec)
  have cmp: "\<not> double_0_3 \<le> 0" "\<not> double_0_3 \<le> double_0_1" "\<not> double_0_3 \<le> 2 * double_0_1"
    by (simp_all add: double_0_1_def double_0_3_def)
  have "frame_points (Fin double_0_3) double_0_1 10
        = [(0, Fin 0), (1, Fin double_0_1), (2, Fin (2 * double_0_1))]"
    unfolding frame_points_def fc sample_loop_takeWhile [OF h]
    using sample_timestamps cmp by (simp add: u del: js_mul.simps)
  with h c fc double_0_1_nearest double_0_3_sum show ?thesis by simp
qed

section \<open>Aggregation\<close>

lemma inherited_not_proto: "inherited_text k = None \<Longrightarrow> k \<noteq> ''__proto__''"
  by (auto simp: inherited_text_def split: if_splits)

lemma tally_read_plain: "inherited_text k = None \<Longrightarrow> tally_read t k = map_of t k"
  by (simp add: tally_read_def split: option.splits)

lemma own_write_keys: "map fst (own_write t k v) = set_add (map fst t) k"
  by (induction t) (force simp: set_add_def)+

lemma own_write_map_of: "map_of (own_write t k v) = (map_of t)(k \<mapsto> v)"
  by (induction t) (auto simp: fun_eq_iff)

lemma tally_add_keys:
  "inherited_text k = None \<Longrightarrow> map fst (tally_add t k) = set_add (map fst t) k"
  by (simp add: tally_add_def inherited_not_proto own_write_keys)

lemma tally_add_map_of:
  "inherited_text k = None \<Longrightarrow>
   map_of (tally_add t k) = (map_of t)(k \<mapsto> plus_one (map_of t k))"
  by (simp add: tally_add_def inherited_not_proto own_write_map_of tally_read_plain)

lemma foldl_set_add_snoc: "foldl set_add s (xs @ [x]) = set_add (foldl set_add s xs) x"
  by simp

lemma foldl_tally_keys:
  "\<forall>k \<in> set ks. inherited_text k = None \<Longrightarrow>
   map fst (foldl tally_add [] ks) = foldl set_add [] ks"
  by (induction ks rule: rev_induct) (simp_all add: tally_add_keys)

lemma foldl_tally_map_of:
  "\<forall>k \<in> set ks. inherited_text k = None \<Longrightarrow>
   map_of (foldl tally_add [] ks) k =
     (if k \<in> set ks then Some (Count (count_list ks k)) else None)"
proof (induction ks arbitrary: k rule: rev_induct)
  case Nil
  then show ?case by simp
next
  case (snoc x ks)
  then have ih: "map_of (foldl tally_add [] ks) k =
                   (if k \<in> set ks then Some (Count (count_list ks k)) else None)"
    and ihx: "map_of (foldl tally_add [] ks) x =
                   (if x \<in> set ks then Some (Count (count_list ks x)) else None)"
    and x: "inherited_text x = None"
    by simp_all
  have c0: "x \<notin> set ks \<Longrightarrow> count_list ks x = 0" by (simp add: count_list_0_iff)
  show ?case
    using ih ihx c0 by (simp add: tally_add_map_of [OF x])
qed

lemma locationFrequency_count:
  "\<forall>k \<in> set (map key_of locs). inherited_text k = None \<Longrightarrow>
   map_of (locationFrequency locs) k =
     (if k \<in> set (map key_of locs) then Some (Count (count_list (map key_of locs) k))
      else None)"
  unfolding locationFrequency_def by (rule foldl_tally_map_of)

lemma set_foldl_set_add: "set (foldl set_add s xs) = set s \<union> set xs"
  by (induction xs arbitrary: s) (auto simp: set_add_def)

lemma set_Object_keys: "set (Object_keys t) = fst ` set t"
  by (auto simp: Object_keys_def)

lemma Object_keys_locations:
  assumes "\<forall>k \<in> set (map key_of locs). inherited_text k = None"
  shows "set (Object_keys (locationFrequency locs)) = set (map key_of locs)"
proof -
  have "fst ` set (locationFrequency locs) = set (map fst (locationFrequency locs))" by simp
  also have "\<dots> = set (map key_of locs)"
    unfolding locationFrequency_def foldl_tally_keys [OF assms] by (simp add: set_foldl_set_add)
  finally show ?thesis by (simp add: set_Object_keys)
qed

lemma Object_keys_plain:
  "list_all (\<lambda>k. \<not> is_array_index k) (map fst t) \<Longrightarrow> Object_keys t = map fst t"
  by (simp add: Object_keys_def list_all_iff filter_empty_conv)

text \<open>
  The reducer keeps the last key of highest count, when every key read has a number
  as its tally (\<open>c\<close> gives it) and the start value has a number or none.
\<close>

lemma more_frequent_counts:
  assumes "tally_read t a = Some (Count x)" "tally_read t b = Some (Count y)"
  shows "more_frequent t a b = (if y < x then a else b)"
  using assms by (simp add: more_frequent_def)

lemma more_frequent_missing:
  assumes "tally_read t a = None"
  shows "more_frequent t a b = b"
  using assms by (simp add: more_frequent_def)

lemma reduce_last_max:
  assumes "\<forall>k \<in> set ks. tally_read t k = Some (Count (c k))"
    and "tally_read t a = None \<or> tally_read t a = Some (Count (c a))"
  shows "(foldl (more_frequent t) a ks = a
            \<and> (\<forall>k \<in> set ks. tally_read t a = Some (Count (c a)) \<and> c k < c a))
         \<or> (\<exists>i < length ks. foldl (more_frequent t) a ks = ks ! i
               \<and> (\<forall>j < length ks. c (ks ! j) \<le> c (ks ! i))
               \<and> (\<forall>j < length ks. c (ks ! j) = c (ks ! i) \<longrightarrow> j \<le> i))"
  using assms(1)
proof (induction ks rule: rev_induct)
  case Nil
  then show ?case by simp
next
  case (snoc k ks)
  let ?r = "foldl (more_frequent t) a ks"
  from snoc.prems have y: "tally_read t k = Some (Count (c k))" by simp
  from snoc.prems have prem: "\<forall>k \<in> set ks. tally_read t k = Some (Count (c k))" by simp
  have step: "foldl (more_frequent t) a (ks @ [k]) = more_frequent t ?r k" by simp
  from snoc.IH [OF prem] show ?case
  proof (elim disjE conjE exE)
    assume ra: "?r = a"
      and all: "\<forall>k \<in> set ks. tally_read t a = Some (Count (c a)) \<and> c k < c a"
    show ?thesis
    proof (cases "tally_read t a = Some (Count (c a)) \<and> c k < c a")
      case True
      then have "more_frequent t a k = a" using y by (simp add: more_frequent_counts)
      with ra all True show ?thesis by (auto simp: step)
    next
      case False
      have mk: "more_frequent t a k = k"
      proof (cases "tally_read t a")
        case None
        then show ?thesis by (rule more_frequent_missing)
      next
        case (Some v)
        with assms(2) have "tally_read t a = Some (Count (c a))" by simp
        with False y show ?thesis by (simp add: more_frequent_counts)
      qed
      have le: "\<forall>j < length ks. c (ks ! j) \<le> c k"
      proof (intro allI impI)
        fix j assume j: "j < length ks"
        then have "ks ! j \<in> set ks" by simp
        with all have "tally_read t a = Some (Count (c a))" "c (ks ! j) < c a" by auto
        with False show "c (ks ! j) \<le> c k" by auto
      qed
      have "\<exists>i < length (ks @ [k]). foldl (more_frequent t) a (ks @ [k]) = (ks @ [k]) ! i
               \<and> (\<forall>j < length (ks @ [k]). c ((ks @ [k]) ! j) \<le> c ((ks @ [k]) ! i))
               \<and> (\<forall>j < length (ks @ [k]). c ((ks @ [k]) ! j) = c ((ks @ [k]) ! i) \<longrightarrow> j \<le> i)"
        using ra mk le
        by (intro exI [of _ "length ks"]) (auto simp: step nth_append less_Suc_eq)
      then show ?thesis by blast
    qed
  next
    fix i
    assume i: "i < length ks" and ri: "?r = ks ! i"
      and mx: "\<forall>j < length ks. c (ks ! j) \<le> c (ks ! i)"
      and tie: "\<forall>j < length ks. c (ks ! j) = c (ks ! i) \<longrightarrow> j \<le> i"
    from i prem have x: "tally_read t (ks ! i) = Some (Count (c (ks ! i)))" by simp
    show ?thesis
    proof (cases "c k < c (ks ! i)")
      case True
      then have "more_frequent t (ks ! i) k = ks ! i" using x y by (simp add: more_frequent_counts)
      then have "\<exists>i < length (ks @ [k]). foldl (more_frequent t) a (ks @ [k]) = (ks @ [k]) ! i
               \<and> (\<forall>j < length (ks @ [k]). c ((ks @ [k]) ! j) \<le> c ((ks @ [k]) ! i))
               \<and> (\<forall>j < length (ks @ [k]). c ((ks @ [k]) ! j) = c ((ks @ [k]) ! i) \<longrightarrow> j \<le> i)"
        using ri i mx tie True
        by (intro exI [of _ i]) (auto simp: step nth_append less_Suc_eq)
      then show ?thesis by blast
    next
      case False
      then have "more_frequent t (ks ! i) k = k" using x y by (simp add: more_frequent_counts)
      moreover have "\<forall>j < length ks. c (ks ! j) \<le> c k"
        using mx False by (metis leI le_trans)
      ultimately have "\<exists>i < length (ks @ [k]). foldl (more_frequent t) a (ks @ [k]) = (ks @ [k]) ! i
               \<and> (\<forall>j < length (ks @ [k]). c ((ks @ [k]) ! j) \<le> c ((ks @ [k]) ! i))
               \<and> (\<forall>j < length (ks @ [k]). c ((ks @ [k]) ! j) = c ((ks @ [k]) ! i) \<longrightarrow> j \<le> i)"
        using ri
        by (intro exI [of _ "length ks"]) (auto simp: step nth_append less_Suc_eq)
      then show ?thesis by blast
    qed
  qed
qed

lemma inherited_unknown: "inherited_text ''unknown'' = None"
  by (simp add: inherited_text_def prototype_methods_def)

lemma reduce_on_keys:
  assumes "locs \<noteq> []" and plain: "\<forall>k \<in> set (map key_of locs). inherited_text k = None"
  shows "\<exists>i < length (location_keys locs).
           mostCommonLocation locs = location_keys locs ! i
           \<and> (\<forall>j < length (location_keys locs).
                  count_list (map key_of locs) (location_keys locs ! j)
                  \<le> count_list (map key_of locs) (location_keys locs ! i))
           \<and> (\<forall>j < length (location_keys locs).
                  count_list (map key_of locs) (location_keys locs ! j)
                  = count_list (map key_of locs) (location_keys locs ! i) \<longrightarrow> j \<le> i)"
proof -
  let ?t = "locationFrequency locs"
  let ?ks = "location_keys locs"
  let ?c = "count_list (map key_of locs)"
  have keys: "set ?ks = set (map key_of locs)"
    by (simp add: location_keys_def Object_keys_locations [OF plain])
  then have ne: "?ks \<noteq> []" using assms(1) by (cases locs) auto
  have dom: "\<forall>k \<in> set ?ks. tally_read ?t k = Some (Count (?c k))"
    using keys plain by (simp add: tally_read_plain locationFrequency_count [OF plain])
  have start: "tally_read ?t ''unknown'' = None
               \<or> tally_read ?t ''unknown'' = Some (Count (?c ''unknown''))"
    by (simp add: tally_read_plain [OF inherited_unknown] locationFrequency_count [OF plain])
  have r: "mostCommonLocation locs = foldl (more_frequent ?t) ''unknown'' ?ks"
    by (simp add: mostCommonLocation_def location_keys_def Let_def)
  from reduce_last_max [OF dom start] show ?thesis
  proof (elim disjE conjE)
    assume all: "\<forall>k \<in> set ?ks. tally_read ?t ''unknown'' = Some (Count (?c ''unknown''))
                    \<and> ?c k < ?c ''unknown''"
    from ne obtain k where k: "k \<in> set ?ks" by (cases ?ks) auto
    with all have "tally_read ?t ''unknown'' = Some (Count (?c ''unknown''))" by blast
    then have "''unknown'' \<in> set ?ks"
      using keys
      by (simp add: tally_read_plain [OF inherited_unknown] locationFrequency_count [OF plain]
          split: if_splits)
    with all show ?thesis by fastforce
  next
    assume "\<exists>i < length ?ks. foldl (more_frequent ?t) ''unknown'' ?ks = ?ks ! i
               \<and> (\<forall>j < length ?ks. ?c (?ks ! j) \<le> ?c (?ks ! i))
               \<and> (\<forall>j < length ?ks. ?c (?ks ! j) = ?c (?ks ! i) \<longrightarrow> j \<le> i)"
    then show ?thesis by (simp add: r)
  qed
qed

lemma location_keys_plain:
  assumes "list_all (\<lambda>k. \<not> is_array_index k) (map key_of locs)"
    and plain: "\<forall>k \<in> set (map key_of locs). inherited_text k = None"
  shows "location_keys locs = foldl set_add [] (map key_of locs)"
proof -
  have m: "map fst (locationFrequency locs) = foldl set_add [] (map key_of locs)"
    unfolding locationFrequency_def by (rule foldl_tally_keys [OF plain])
  have "set (map fst (locationFrequency locs)) = set (map key_of locs)"
    unfolding m by (simp add: set_foldl_set_add)
  then have "list_all (\<lambda>k. \<not> is_array_index k) (map fst (locationFrequency locs))"
    using assms(1) unfolding list_all_iff by blast
  then show ?thesis unfolding location_keys_def using m by (simp add: Object_keys_plain)
qed

text \<open>
  Claim C8, as amended. For location values none of which names a property that the
  frequency table inherits from \<open>Object.prototype\<close> (such as \<open>toString\<close>,
  \<open>constructor\<close> or \<open>__proto__\<close>): they are tallied by the exact string of their
  key, and the most common location is a key of highest tally; among keys tied for the
  highest tally the one that comes last in the key order of the frequency table wins.
  That order is the order of first encounter when no key is an array index. With no
  location at all the result is \<open>unknown\<close>.
\<close>

theorem most_common_location:
  assumes "\<forall>k \<in> set (map key_of locs). inherited_text k = None"
  shows "(locs = [] \<longrightarrow> mostCommonLocation locs = ''unknown'')
   \<and> (\<forall>k. map_of (locationFrequency locs) k =
            (if k \<in> set (map key_of locs)
             then Some (Count (count_list (map key_of locs) k)) else None))
   \<and> (locs \<noteq> [] \<longrightarrow>
        (\<exists>i < length (location_keys locs).
           mostCommonLocation locs = location_keys locs ! i
           \<and> (\<forall>j < length (location_keys locs).
                  count_list (map key_of locs) (location_keys locs ! j)
                  \<le> count_list (map key_of locs) (location_keys locs ! i))
           \<and> (\<forall>j < length (location_keys locs).
                  count_list (map key_of locs) (location_keys locs ! j)
                  = count_list (map key_of locs) (location_keys locs ! i) \<longrightarrow> j \<le> i)))
   \<and> (list_all (\<lambda>k. \<not> is_array_index k) (map key_of locs) \<longrightarrow>
        location_keys locs = foldl set_add [] (map key_of locs))"
proof (intro conjI impI allI)
  assume "locs = []"
  then show "mostCommonLocation locs = ''unknown''"
    by (simp add: mostCommonLocation_def locationFrequency_def Object_keys_def)
next
  fix k
  show "map_of (locationFrequency locs) k =
          (if k \<in> set (map key_of locs)
           then Some (Count (count_list (map key_of locs) k)) else None)"
    by (rule locationFrequency_count [OF assms])
next
  assume "locs \<noteq> []"
  then show "\<exists>i < length (location_keys locs).
           mostCommonLocation locs = location_keys locs ! i
           \<and> (\<forall>j < length (location_keys locs).
                  count_list (map key_of locs) (location_keys locs ! j)
                  \<le> count_list (map key_of locs) (location_keys locs ! i))
           \<and> (\<forall>j < length (location_keys locs).
                  count_list (map key_of locs) (location_keys locs ! j)
                  = count_list (map key_of locs) (location_keys locs ! i) \<longrightarrow> j \<le> i)"
    using assms by (rule reduce_on_keys)
next
  assume "list_all (\<lambda>k. \<not> is_array_index k) (map key_of locs)"
  then show "location_keys locs = foldl set_add [] (map key_of locs)"
    using assms by (rule location_keys_plain)
qed

lemma sample_plain:
  "\<forall>k \<in> set (map key_of [Def ''office'', Def ''park'', Def ''park'', Def ''office'']).
     inherited_text k = None"
  by (simp add: inherited_text_def prototype_methods_def)

lemma sample_keys:
  "location_keys [Def ''office'', Def ''park'', Def ''park'', Def ''office''] = [''office'', ''park'']"
  using location_keys_plain [OF _ sample_plain]
  by (simp add: is_array_index_def is_digit_def set_add_def)

theorem most_common_location_witness:
  "inherited_text ''office'' = None \<and> inherited_text ''park'' = None
   \<and> [Def ''office'', Def ''park'', Def ''park'', Def ''office''] \<noteq> []
   \<and> list_all (\<lambda>k. \<not> is_array_index k)
         (map key_of [Def ''office'', Def ''park'', Def ''park'', Def ''office''])
   \<and> count_list (map key_of [Def ''office'', Def ''park'', Def ''park'', Def ''office'']) ''office'' = 2
   \<and> count_list (map key_of [Def ''office'', Def ''park'', Def ''park'', Def ''office'']) ''park'' = 2
   \<and> mostCommonLocation [Def ''office'', Def ''park'', Def ''park'', Def ''office''] = ''park''"
proof -
  let ?locs = "[Def ''office'', Def ''park'', Def ''park'', Def ''office'']"
  have ne: "?locs \<noteq> []" by simp
  have plain: "list_all (\<lambda>k. \<not> is_array_index k) (map key_of ?locs)"
    by (simp add: is_array_index_def is_digit_def)
  have c1: "count_list (map key_of ?locs) ''office'' = 2"
    and c2: "count_list (map key_of ?locs) ''park'' = 2" by simp_all
  from most_common_location [OF sample_plain] ne
  obtain i where i: "i < length (location_keys ?locs)"
    and r: "mostCommonLocation ?locs = location_keys ?locs ! i"
    and tie: "\<forall>j < length (location_keys ?locs).
                count_list (map key_of ?locs) (location_keys ?locs ! j)
                = count_list (map key_of ?locs) (location_keys ?locs ! i) \<longrightarrow> j \<le> i"
    by blast
  from i have i2: "i = 0 \<or> i = 1" by (auto simp: sample_keys)
  have "i \<noteq> 0"
  proof
    assume "i = 0"
    with tie [rule_format, of 1] show False by (simp add: sample_keys)
  qed
  with i2 have "i = 1" by simp
  with r have "mostCommonLocation ?locs = ''park''" by (simp add: sample_keys)
  moreover have "inherited_text ''office'' = None \<and> inherited_text ''park'' = None"
    using sample_plain by simp
  ultimately show ?thesis using ne plain c1 c2 by blast
qed

text \<open>
  Claim C8 as stated fails: with two locations seen once each, the first one
  encountered does not win the tie.
\<close>

theorem first_location_loses_tie:
  "locationFrequency [Def ''office'', Def ''park''] = [(''office'', Count 1), (''park'', Count 1)]
   \<and> mostCommonLocation [Def ''office'', Def ''park''] \<noteq> ''office''"
  by (simp add: mostCommonLocation_def locationFrequency_def Object_keys_def is_array_index_def
      is_digit_def more_frequent_def tally_add_def tally_read_def inherited_text_def
      prototype_methods_def)

text \<open>
  A location that names an inherited property is tallied as a string, against which
  no number is greater: one \<open>toString\<close> after two \<open>office\<close> is the most common location.
\<close>

lemma inherited_name_is_most_common:
  "locationFrequency [Def ''office'', Def ''office'', Def ''toString'']
     = [(''office'', Count 2), (''toString'', Text ''function toString() { [native code] }1'')]
   \<and> mostCommonLocation [Def ''office'', Def ''office'', Def ''toString''] = ''toString''"
  by (simp add: mostCommonLocation_def locationFrequency_def Object_keys_def is_array_index_def
      is_digit_def more_frequent_def tally_add_def tally_read_def inherited_text_def
      prototype_methods_def)

text \<open>
  Claim C7. The claim excludes frames without a people count from minimum, maximum and
  average. In the source \<open>|| 0\<close> turns a missing count into 0 before the filter runs,
  so such a frame is counted as zero: for a frame with count 2 and a frame without a
  count the statistics are 0, 2 and 1, not 2, 2 and 2.
\<close>

theorem missing_count_is_counted_as_zero:
  "peopleCount (aggregateFrameAnalyses
      [sample_frame 0 (Def (Fin 2)) (Def ''office''), sample_frame 1 Undefined (Def ''office'')])
   = \<lparr> stat_min = Fin 0, stat_max = Fin 2, stat_average = Fin 1 \<rparr>"
  by (simp add: aggregateFrameAnalyses_def peopleCounts_def count_of_def or_zero_def
      sample_frame_def Math_min_def Math_max_def Let_def fl_zero fl_one fl_numeral)

lemma peopleCounts_keeps_all: "length (peopleCounts fas) = length fas"
  by (simp add: peopleCounts_def or_zero_def split: opt.splits)
section \<open>Frame analysis\<close>

lemma analyze_frame_try_index:
  "analyze_frame_try venv prompt iv i fp = Inr fa \<Longrightarrow>
   frameIndex fa = i \<and> frame_timestamp fa = js_mul (Fin (of_nat i)) (Fin iv)"
  by (auto simp: analyze_frame_try_def split: sum.splits list.splits option.splits)

text \<open>The two failures the specification names make the \<open>try\<close> block throw.\<close>

lemma frame_failure_modes:
  assumes "read_image venv fp = Inr img" and "stat_image venv fp = Inr sz"
  shows "vision venv i prompt img = Inl e \<Longrightarrow>
           analyze_frame_try venv prompt iv i fp = Inl e"
    and "vision venv i prompt img = Inr resp \<Longrightarrow> choices resp = Some c # cs \<Longrightarrow>
           parse_analysis venv c = None \<Longrightarrow>
           analyze_frame_try venv prompt iv i fp = Inl (SyntaxError ''Unexpected token'')"
  using assms by (simp_all add: analyze_frame_try_def)

lemma analyze_frames_all:
  assumes "\<forall>j < length paths. \<exists>fa. analyze_frame_try venv prompt iv (k + j) (paths ! j) = Inr fa"
  shows "map frameIndex (analyze_frames venv prompt iv k paths) = [k..<k + length paths]"
  using assms
proof (induction paths arbitrary: k)
  case Nil
  then show ?case by simp
next
  case (Cons fp rest)
  from Cons.prems [rule_format, of 0] obtain fa
    where fa: "analyze_frame_try venv prompt iv k fp = Inr fa" by auto
  have "\<forall>j < length rest. \<exists>fa. analyze_frame_try venv prompt iv (Suc k + j) (rest ! j) = Inr fa"
    using Cons.prems by (auto dest: spec [of _ "Suc j" for j])
  from Cons.IH [OF this] fa analyze_frame_try_index [OF fa] show ?case
    by (simp add: upt_conv_Cons del: upt_Suc)
qed

lemma analyze_frames_one_failure:
  assumes "i < length paths"
    and "analyze_frame_try venv prompt iv (k + i) (paths ! i) = Inl e"
    and "\<forall>j < length paths. j \<noteq> i \<longrightarrow>
           (\<exists>fa. analyze_frame_try venv prompt iv (k + j) (paths ! j) = Inr fa)"
  shows "map frameIndex (analyze_frames venv prompt iv k paths)
         = filter (\<lambda>j. j \<noteq> k + i) [k..<k + length paths]"
  using assms
proof (induction paths arbitrary: k i)
  case Nil
  then show ?case by simp
next
  case (Cons fp rest)
  show ?case
  proof (cases i)
    case 0
    have "\<forall>j < length rest. \<exists>fa. analyze_frame_try venv prompt iv (Suc k + j) (rest ! j) = Inr fa"
      using Cons.prems(3) 0 by (auto dest: spec [of _ "Suc j" for j])
    from analyze_frames_all [OF this] Cons.prems(2) 0 show ?thesis
      by (simp add: upt_conv_Cons del: upt_Suc)
  next
    case (Suc i')
    from Cons.prems(3) [rule_format, of 0] Suc obtain fa
      where fa: "analyze_frame_try venv prompt iv k fp = Inr fa" by auto
    have 1: "i' < length rest" using Cons.prems(1) Suc by simp
    have 2: "analyze_frame_try venv prompt iv (Suc k + i') (rest ! i') = Inl e"
      using Cons.prems(2) Suc by simp
    have 3: "\<forall>j < length rest. j \<noteq> i' \<longrightarrow>
               (\<exists>fa. analyze_frame_try venv prompt iv (Suc k + j) (rest ! j) = Inr fa)"
      using Cons.prems(3) Suc by (auto dest: spec [of _ "Suc j" for j])
    from Cons.IH [OF 1 2 3] fa analyze_frame_try_index [OF fa] Suc show ?thesis
      by (simp add: upt_conv_Cons del: upt_Suc)
  qed
qed

lemma length_filter_one_out:
  "i < n \<Longrightarrow> length (filter (\<lambda>j. j \<noteq> i) [0..<n]) = n - 1"
proof (induction n)
  case 0
  then show ?case by simp
next
  case (Suc n)
  show ?case
  proof (cases "i = n")
    case True
    have "filter (\<lambda>j. j \<noteq> n) [0..<n] = [0..<n]" by (simp add: filter_id_conv)
    with True show ?thesis by simp
  next
    case False
    with Suc have "i < n" by simp
    with Suc.IH False show ?thesis by simp
  qed
qed

text \<open>
  Claim C9. For every batch of K sampled frames, if the analysis of exactly one frame
  fails, the batch does not raise and the resulting frame analyses have exactly K - 1
  entries: the failed frame is left out and every other frame is analysed.
\<close>

theorem one_failed_frame_is_skipped:
  assumes "extractFrames venv videoPath (frames_dir venv) intervalSeconds maxFrames = Inr framePaths"
    and "getOpenAIClient (v_client_cached venv) (v_api_key venv) = Inr ()"
    and "i < length framePaths"
    and "analyze_frame_try venv (chosen_prompt customPrompt (frame_prompt venv))
           intervalSeconds i (framePaths ! i) = Inl e"
    and "\<forall>j < length framePaths. j \<noteq> i \<longrightarrow>
           (\<exists>fa. analyze_frame_try venv (chosen_prompt customPrompt (frame_prompt venv))
                   intervalSeconds j (framePaths ! j) = Inr fa)"
  shows "\<exists>r. analyzeVideoContent venv videoPath intervalSeconds maxFrames customPrompt = Inr r
             \<and> length (frameAnalyses r) = length framePaths - 1
             \<and> map frameIndex (frameAnalyses r) = filter (\<lambda>j. j \<noteq> i) [0..<length framePaths]"
proof -
  let ?p = "chosen_prompt customPrompt (frame_prompt venv)"
  let ?fas = "analyze_frames venv ?p intervalSeconds 0 framePaths"
  have ne: "framePaths \<noteq> []" using assms(3) by auto
  have idx: "map frameIndex ?fas = filter (\<lambda>j. j \<noteq> i) [0..<length framePaths]"
    using analyze_frames_one_failure [of i framePaths venv ?p intervalSeconds 0 e] assms(3-5)
    by simp
  have "length ?fas = length (map frameIndex ?fas)" by simp
  also have "\<dots> = length framePaths - 1"
    unfolding idx using assms(3) by (rule length_filter_one_out)
  finally have len: "length ?fas = length framePaths - 1" .
  obtain s u where su: "video_summary venv ?fas = (s, u)" by (cases "video_summary venv ?fas")
  have "analyzeVideoContent venv videoPath intervalSeconds maxFrames customPrompt
        = Inr \<lparr> video_summary_of = s, frameAnalyses = ?fas,
                 aggregatedAnalysis = aggregateFrameAnalyses ?fas,
                 framesAnalyzed = length ?fas,
                 usage_frames = foldl add_usage zero_usage (map frame_usage ?fas),
                 usage_summary = u,
                 usage_total = add_usage (foldl add_usage zero_usage (map frame_usage ?fas)) u \<rparr>"
    using assms(1,2) ne su by (simp add: analyzeVideoContent_def Let_def)
  with len idx show ?thesis by simp
qed

lemma sample_frames:
  "extractFrames sample_video_env ''/tmp/clip.mp4'' (frames_dir sample_video_env) 5 6
   = Inr (map (frame_name (frames_dir sample_video_env)) (frame_points (Fin 12) 5 6))"
  by (simp add: extractFrames_def sample_video_env_def resolve_duration_def
      first_grab_error_def List.map_filter_def)

lemma sample_points: "frame_points (Fin 12) 5 6 = [(0, Fin 0), (1, Fin 5), (2, Fin 10)]"
proof -
  have c: "\<lceil>12 / 5 :: rat\<rceil> = 3" by (simp add: ceiling_rat_numeral)
  from exact_sampling [of 12 5 0 6] show ?thesis by (simp add: c upt_rec)
qed

theorem one_failed_frame_is_skipped_witness:
  "extractFrames sample_video_env ''/tmp/clip.mp4'' (frames_dir sample_video_env) 5 6
     = Inr (map (frame_name (frames_dir sample_video_env)) (frame_points (Fin 12) 5 6))
   \<and> length (map (frame_name (frames_dir sample_video_env)) (frame_points (Fin 12) 5 6)) = 3
   \<and> analyze_frame_try sample_video_env (chosen_prompt None (frame_prompt sample_video_env)) 5 1
        (map (frame_name (frames_dir sample_video_env)) (frame_points (Fin 12) 5 6) ! 1)
      = Inl (SyntaxError ''Unexpected token'')
   \<and> (\<exists>r. analyzeVideoContent sample_video_env ''/tmp/clip.mp4'' 5 6 None = Inr r
          \<and> length (frameAnalyses r) = 2
          \<and> map frameIndex (frameAnalyses r) = [0, 2])"
proof -
  let ?paths = "map (frame_name (frames_dir sample_video_env)) (frame_points (Fin 12) 5 6)"
  let ?p = "chosen_prompt None (frame_prompt sample_video_env)"
  have len: "length ?paths = 3" by (simp add: sample_points)
  have c: "getOpenAIClient (v_client_cached sample_video_env) (v_api_key sample_video_env) = Inr ()"
    by (simp add: getOpenAIClient_def sample_video_env_def)
  have i: "(1::nat) < length ?paths" using len by simp
  have bad: "analyze_frame_try sample_video_env ?p 5 1 (?paths ! 1)
             = Inl (SyntaxError ''Unexpected token'')"
    by (simp add: analyze_frame_try_def sample_video_env_def)
  have good: "\<forall>j < length ?paths. j \<noteq> 1 \<longrightarrow>
                (\<exists>fa. analyze_frame_try sample_video_env ?p 5 j (?paths ! j) = Inr fa)"
    by (simp add: analyze_frame_try_def sample_video_env_def)
  have f: "filter (\<lambda>j. j \<noteq> Suc 0) [0..<3] = [0, 2::nat]" by (simp add: upt_rec)
  from one_failed_frame_is_skipped [OF sample_frames c i bad good]
  have "\<exists>r. analyzeVideoContent sample_video_env ''/tmp/clip.mp4'' 5 6 None = Inr r
          \<and> length (frameAnalyses r) = 2
          \<and> map frameIndex (frameAnalyses r) = [0, 2]"
    unfolding len by (simp add: f)
  with sample_frames len bad show ?thesis by blast
qed

end
